theory Spec2Isabelle
  imports Main "HOL-Library.Word" "HOL-Library.Sublist"
begin

section \<open>The clipboard entry store (\<open>src/cb/src/clipboard.cpp\<close>)\<close>

text \<open>
  A shallow embedding of the methods of class \<open>Clipboard\<close>. The code is modelled as
  it is compiled where \<open>UNIX_OR_UNIX_LIKE\<close> is defined, on an LP64 platform:
  \<open>unsigned long\<close>, \<open>unsigned long long\<close> and \<open>size_t\<close> have 64 bits and
  \<open>int\<close> has 32. Entry ordinals are 64-bit words, so that \<open>front() + 1\<close> wraps as
  it does in the program. Sizes, budgets and positions are natural numbers, with the
  wrap-around of \<open>size_t\<close> written out where the code subtracts
  (\<open>entryIndex.size() - 1\<close> and \<open>startingClipboardSize -= oldestEntrySize\<close>).
\<close>

subsection \<open>Characters, decimal numbers and the library's number parsers\<close>

type_synonym ulong = "64 word"

definition ULONG_MAX :: nat where
  "ULONG_MAX = 2 ^ 64 - 1"

definition INT_MAX :: int where
  "INT_MAX = 2 ^ 31 - 1"

definition INT_MIN :: int where
  "INT_MIN = - (2 ^ 31)"

text \<open>The exceptions and error codes the modelled code can meet.\<close>

datatype exn = Invalid_argument | Out_of_range | Regex_error | Bad_optional_access

datatype errc = invalid_argument | result_out_of_range

definition isdigit :: "char \<Rightarrow> bool" where
  "isdigit c = (48 \<le> (of_char c :: nat) \<and> (of_char c :: nat) \<le> 57)"

definition digit_val :: "char \<Rightarrow> nat" where
  "digit_val c = (of_char c :: nat) - 48"

definition digit_char :: "nat \<Rightarrow> char" where
  "digit_char d = ''0123456789'' ! d"

text \<open>\<open>isspace\<close> in the C locale: space, and the control characters 9 to 13.\<close>

definition isspace :: "char \<Rightarrow> bool" where
  "isspace c = ((of_char c :: nat) = 32 \<or> (9 \<le> (of_char c :: nat) \<and> (of_char c :: nat) \<le> 13))"

text \<open>\<open>::tolower\<close> in the C locale: only the letters A to Z change.\<close>

definition tolower :: "char \<Rightarrow> char" where
  "tolower c =
     (case map_of (zip ''ABCDEFGHIJKLMNOPQRSTUVWXYZ'' ''abcdefghijklmnopqrstuvwxyz'') c of
        Some l \<Rightarrow> l
      | None \<Rightarrow> c)"

text \<open>The value of a run of decimal digits, most significant digit first.\<close>

definition digits_val :: "string \<Rightarrow> nat" where
  "digits_val ds = foldl (\<lambda>a c. 10 * a + digit_val c) 0 ds"

text \<open>
  \<open>std::to_string\<close> of an unsigned value: its decimal digits, no sign, no leading zero.
\<close>

function to_string :: "nat \<Rightarrow> string" where
  "to_string n = (if n < 10 then [digit_char n]
                  else to_string (n div 10) @ [digit_char (n mod 10)])"
  by pat_completeness auto
termination
  by (relation "measure (\<lambda>n. n)") auto

declare to_string.simps [simp del]

text \<open>
  \<open>std::from_chars(first, last, value)\<close> for \<open>unsigned long\<close>, base 10: no leading
  white space and no sign are accepted; the longest run of digits at the start is read
  and what follows it is ignored. No digit at the start is \<open>invalid_argument\<close>; a value
  that does not fit the type is \<open>result_out_of_range\<close>. \<open>Inr v\<close> stands for
  \<open>ec == std::errc()\<close> with \<open>v\<close> stored in \<open>value\<close>.
\<close>

definition from_chars :: "string \<Rightarrow> errc + ulong" where
  "from_chars s =
     (let ds = takeWhile isdigit s in
      if ds = [] then Inl invalid_argument
      else if digits_val ds > ULONG_MAX then Inl result_out_of_range
      else Inr (word_of_nat (digits_val ds)))"

text \<open>
  \<open>strtoul\<close>-style parsing, shared by \<open>std::stoul\<close>, \<open>std::stoull\<close> and
  \<open>std::stoi\<close>: leading white space is skipped, one sign is accepted, then the
  longest run of digits is read; what follows is ignored. The result is the sign
  and the magnitude, or \<open>None\<close> when there is no digit.
\<close>

definition scan_integer :: "string \<Rightarrow> (bool \<times> nat) option" where
  "scan_integer s =
     (let s1 = dropWhile isspace s;
          neg = (s1 \<noteq> [] \<and> hd s1 = CHR ''-'');
          s2 = (if s1 \<noteq> [] \<and> (hd s1 = CHR ''-'' \<or> hd s1 = CHR ''+'') then tl s1 else s1);
          ds = takeWhile isdigit s2
      in if ds = [] then None else Some (neg, digits_val ds))"

text \<open>
  \<open>std::stoul\<close> (and \<open>std::stoull\<close>, the same type here): \<open>std::invalid_argument\<close>
  without a digit, \<open>std::out_of_range\<close> when the magnitude exceeds \<open>ULONG_MAX\<close>; a
  minus sign negates the value in unsigned arithmetic, as \<open>strtoul\<close> does.
\<close>

definition stoul :: "string \<Rightarrow> exn + nat" where
  "stoul s =
     (case scan_integer s of
        None \<Rightarrow> Inl Invalid_argument
      | Some (neg, v) \<Rightarrow>
          if v > ULONG_MAX then Inl Out_of_range
          else Inr (if neg then (2 ^ 64 - v) mod 2 ^ 64 else v))"

definition stoull :: "string \<Rightarrow> exn + nat" where
  "stoull s = stoul s"

text \<open>\<open>std::stoi\<close>: as above through \<open>strtol\<close>, then the value must fit \<open>int\<close>.\<close>

definition stoi :: "string \<Rightarrow> exn + int" where
  "stoi s =
     (case scan_integer s of
        None \<Rightarrow> Inl Invalid_argument
      | Some (neg, v) \<Rightarrow>
          (let i = (if neg then - int v else int v) in
           if i < INT_MIN \<or> INT_MAX < i then Inl Out_of_range else Inr i))"

subsection \<open>The file system\<close>

text \<open>
  A path is its list of components. The file system is the list of the paths that
  exist, each with what it is: a directory, or a regular file with its content. The
  operations below are those of \<open>std::filesystem\<close> and of the repository's file
  helpers that the modelled methods call; they are taken to succeed (no permission or
  I/O failure is modelled).
\<close>

type_synonym path = "string list"

datatype node = Directory | Regular string

type_synonym filesystem = "(path \<times> node) list"

definition fs_exists :: "filesystem \<Rightarrow> path \<Rightarrow> bool" where
  "fs_exists fs p = (map_of fs p \<noteq> None)"

definition node_size :: "node \<Rightarrow> nat" where
  "node_size n = (case n of Directory \<Rightarrow> 0 | Regular content \<Rightarrow> length content)"

definition children :: "filesystem \<Rightarrow> path \<Rightarrow> string list" where
  "children fs p = [last q. (q, n) \<leftarrow> fs, q \<noteq> [] \<and> butlast q = p]"

text \<open>
  \<open>fs::is_empty(p, ec)\<close>: \<open>None\<close> stands for the error (the path does not exist);
  a file is empty when its size is 0, a directory when it has no child.
\<close>

definition fs_is_empty :: "filesystem \<Rightarrow> path \<Rightarrow> bool option" where
  "fs_is_empty fs p =
     (case map_of fs p of
        None \<Rightarrow> None
      | Some Directory \<Rightarrow> Some (children fs p = [])
      | Some (Regular content) \<Rightarrow> Some (content = []))"

text \<open>\<open>fs::create_directories(p)\<close>: every prefix of \<open>p\<close> that is missing becomes a directory.\<close>

definition create_directories :: "path \<Rightarrow> filesystem \<Rightarrow> filesystem" where
  "create_directories p fs =
     foldl (\<lambda>acc q. if q = [] \<or> fs_exists acc q then acc else acc @ [(q, Directory)])
       fs (prefixes p)"

text \<open>\<open>fs::remove_all(p)\<close>: \<open>p\<close> and everything below it is gone.\<close>

definition remove_all :: "path \<Rightarrow> filesystem \<Rightarrow> filesystem" where
  "remove_all p fs = filter (\<lambda>(q, n). \<not> prefix p q) fs"

text \<open>
  Modelled from the spec: \<open>writeToFile\<close> is defined outside \<open>clipboard.cpp\<close>; it
  truncates the file and writes the content (the file is created when it is missing).
\<close>

definition writeToFile :: "path \<Rightarrow> string \<Rightarrow> filesystem \<Rightarrow> filesystem" where
  "writeToFile p content fs =
     (if fs_exists fs p then map (\<lambda>(q, n). if q = p then (q, Regular content) else (q, n)) fs
      else fs @ [(p, Regular content)])"

text \<open>
  Modelled from the spec: \<open>fileContents\<close> is defined outside \<open>clipboard.cpp\<close>; it
  gives the content of a regular file, and nothing (\<open>std::nullopt\<close>) for a path that
  is not one.
\<close>

definition fileContents :: "filesystem \<Rightarrow> path \<Rightarrow> string option" where
  "fileContents fs p =
     (case map_of fs p of Some (Regular content) \<Rightarrow> Some content | _ \<Rightarrow> None)"

text \<open>
  Modelled from the spec: \<open>totalDirectorySize\<close> is defined outside \<open>clipboard.cpp\<close>;
  it is the recursive size of a directory, here the sizes of the regular files at or
  below the path (0 for a path that does not exist).
\<close>

definition totalDirectorySize :: "filesystem \<Rightarrow> path \<Rightarrow> nat" where
  "totalDirectorySize fs p =
     sum_list (map (\<lambda>(q, n). node_size n) (filter (\<lambda>(q, n). prefix p q) fs))"

text \<open>
  \<open>readdir\<close> over a directory: the entries \<open>.\<close> and \<open>..\<close>, then the names of its
  children (in the order the file system holds them; the index is sorted afterwards).
\<close>

definition readdir :: "filesystem \<Rightarrow> path \<Rightarrow> string list" where
  "readdir fs p = ''.'' # ''..'' # children fs p"

subsection \<open>The program's surroundings\<close>

text \<open>
  What \<open>clipboard.cpp\<close> uses and does not define: the constants of
  \<open>clipboard.hpp\<close>, the global paths, helpers of other files, the regular
  expression and SHA-512 libraries, the floating-point parse of a budget, the clock
  and the process table. They are parameters of the model, so every theorem holds
  whatever they are.
\<close>

record env =
  data_directory :: string
  metadata_directory :: string
  data_file_name :: string
  ignore_regex_name :: string
  ignore_secret_name :: string
  lock_name :: string
  notes_name :: string
  original_files_name :: string
  script_name :: string
  script_config_name :: string
  storage_protocol_version_name :: string
  storage_protocol_version :: string
  global_path_persistent :: path
  global_path_temporary :: path
  maximumHistorySize :: string
  isPersistent :: "string \<Rightarrow> bool"
  fileLines :: "string \<Rightarrow> string list"
  regexSplit :: "string \<Rightarrow> string list"
  regex_valid :: "string \<Rightarrow> bool"
  regex_replace :: "string \<Rightarrow> string \<Rightarrow> string"
  regex_match :: "string \<Rightarrow> string \<Rightarrow> bool"
  SHA512 :: "string \<Rightarrow> 8 word list"
  stold_scaled :: "string \<Rightarrow> nat \<Rightarrow> exn + nat"
  byte_before :: "string \<Rightarrow> nat \<Rightarrow> char"
  st_mtime :: "path \<Rightarrow> int"
  now :: int
  clock_period :: int
  thisPID :: nat
  getpgrp :: int
  getpgid :: "int \<Rightarrow> int"
  kill0 :: "nat \<Rightarrow> int \<Rightarrow> int"
  lock_present :: "nat \<Rightarrow> bool"

text \<open>
  In \<open>env\<close>: \<open>maximumHistorySize\<close> is the retention string of the configuration;
  \<open>fileLines content\<close> are the lines of a file with that content and
  \<open>regexSplit content\<close> the parts of a string between runs of white space (both
  helpers of other files); \<open>regex_valid pattern\<close> says that \<open>std::regex(pattern)\<close> does not
  throw, \<open>regex_replace content pattern\<close> is
  \<open>std::regex_replace(content, std::regex(pattern), "")\<close> and
  \<open>regex_match name pattern\<close> is \<open>std::regex_match\<close>;
  \<open>stold_scaled setting k\<close> is \<open>std::stold(setting) * k\<close> converted to the unsigned
  budget, or the exception \<open>std::stold\<close> throws; \<open>byte_before setting i\<close> is the byte
  that lies \<open>i\<close> places in front of the buffer of the string \<open>setting\<close> in memory;
  \<open>st_mtime p\<close> is the modification
  time in seconds that \<open>stat\<close> reports for an existing path, \<open>now\<close> is the clock
  in its own ticks and \<open>clock_period\<close> the number of ticks in a second;
  \<open>kill0 i pid\<close> and \<open>lock_present i\<close> are what \<open>kill(pid, 0)\<close> returns and whether
  the lock file is still there at the \<open>i\<close>-th round of the wait for the lock.
\<close>

subsection \<open>The clipboard object and the process around it\<close>

text \<open>The state of the program (declared in \<open>clipboard.hpp\<close>), the part of it the code sets.\<close>

datatype ClipboardState = Setup | Action | Error

text \<open>
  The line the constructor and \<open>entryPathFor\<close> print on \<open>stderr\<close>: "The history
  entry you chose ("%lu") doesn't exist. Try choosing a different or newer one
  instead.", with the ordinal it names.
\<close>

datatype message = History_entry_missing nat

record world =
  files :: filesystem
  clipboard_state :: ClipboardState
  indicator_running :: bool
  stderr :: "message list"

record clipboard =
  this_name :: string
  this_entry :: nat
  is_persistent :: bool
  root :: path
  entryIndex :: "ulong list"
  data :: path
  data_raw :: path
  metadata :: path
  metadata_ignore :: path
  metadata_ignore_secret :: path
  metadata_lock :: path
  metadata_notes :: path
  metadata_originals :: path
  metadata_script :: path
  metadata_script_config :: path
  metadata_version :: path

text \<open>
  How a call ends: it returns a value, an exception leaves it, the process exits with
  a status, or the behaviour is undefined. The first three carry the state reached.
\<close>

datatype ('r, 's) outcome =
    Returned 'r 's
  | Thrown exn 's
  | Exited nat 's
  | Undefined_behaviour

definition EXIT_FAILURE :: nat where
  "EXIT_FAILURE = 1"

text \<open>
  The \<open>catch (...)\<close> block shared by the constructor and \<open>entryPathFor\<close>: the state
  becomes \<open>Error\<close>, \<open>stopIndicator()\<close> stops the progress indicator, the message
  naming the entry is printed and the process exits with \<open>EXIT_FAILURE\<close>.
\<close>

definition no_such_entry :: "nat \<Rightarrow> world \<Rightarrow> world" where
  "no_such_entry entry w =
     w\<lparr>clipboard_state := Error, indicator_running := False,
       stderr := stderr w @ [History_entry_missing entry]\<rparr>"

subsection \<open>\<open>Clipboard::generatedEntryIndex\<close>\<close>

text \<open>
  One round of the \<open>readdir\<close> loop: a 0 is appended, \<open>std::from_chars\<close> parses the
  name into it, and it is popped again when the parse reports an error.
\<close>

definition index_step :: "ulong list \<Rightarrow> string \<Rightarrow> ulong list" where
  "index_step pathNames d_name =
     (let pushed = pathNames @ [0] in
      case from_chars d_name of
        Inr v \<Rightarrow> butlast pushed @ [v]
      | Inl ec \<Rightarrow> butlast pushed)"

definition index_of_names :: "string list \<Rightarrow> ulong list" where
  "index_of_names names =
     (let pathNames = foldl index_step [] names;
          pathNames = (if pathNames = [] then pathNames @ [0] else pathNames)
      in rev (sort pathNames))"

definition generatedEntryIndex :: "env \<Rightarrow> path \<Rightarrow> world \<Rightarrow> ulong list \<times> world" where
  "generatedEntryIndex e root_path w =
     (let entriesDir = root_path @ [data_directory e];
          w1 = w\<lparr>files := create_directories entriesDir (files w)\<rparr>
      in (index_of_names (readdir (files w1) entriesDir), w1))"

subsection \<open>\<open>Clipboard::Clipboard\<close>\<close>

text \<open>
  The paths of the object are empty until they are assigned: the data paths inside
  the \<open>try\<close> block, the metadata paths after it. The \<open>catch\<close> block leaves before
  either is set.
\<close>

definition Clipboard ::
  "env \<Rightarrow> string \<Rightarrow> nat \<Rightarrow> world \<Rightarrow> (unit, clipboard \<times> world) outcome" where
  "Clipboard e clipboard_name clipboard_entry w =
     (let persistent = isPersistent e clipboard_name;
          r = (if persistent then global_path_persistent e else global_path_temporary e)
                @ [clipboard_name];
          (idx, w1) = generatedEntryIndex e r w;
          c = \<lparr>this_name = clipboard_name, this_entry = clipboard_entry,
               is_persistent = persistent, root = r, entryIndex = idx,
               data = [], data_raw = [], metadata = [],
               metadata_ignore = [], metadata_ignore_secret = [], metadata_lock = [],
               metadata_notes = [], metadata_originals = [], metadata_script = [],
               metadata_script_config = [], metadata_version = []\<rparr>
      in if clipboard_entry < length idx then
           (let d = r @ [data_directory e, to_string (unat (idx ! clipboard_entry))];
                m = r @ [metadata_directory e];
                c1 = c\<lparr>data := d, data_raw := d @ [data_file_name e], metadata := m,
                       metadata_ignore := m @ [ignore_regex_name e],
                       metadata_ignore_secret := m @ [ignore_secret_name e],
                       metadata_lock := m @ [lock_name e],
                       metadata_notes := m @ [notes_name e],
                       metadata_originals := m @ [original_files_name e],
                       metadata_script := m @ [script_name e],
                       metadata_script_config := m @ [script_config_name e],
                       metadata_version := m @ [storage_protocol_version_name e]\<rparr>;
                w2 = w1\<lparr>files := create_directories m (create_directories d (files w1))\<rparr>;
                w3 = w2\<lparr>files := writeToFile (metadata_version c1)
                                    (storage_protocol_version e) (files w2)\<rparr>
            in Returned () (c1, w3))
         else Exited EXIT_FAILURE (c, no_such_entry clipboard_entry w1))"

subsection \<open>What the current entry and the metadata hold\<close>

definition holdsRawDataInCurrentEntry :: "clipboard \<Rightarrow> world \<Rightarrow> bool" where
  "holdsRawDataInCurrentEntry c w =
     (case fs_is_empty (files w) (data_raw c) of None \<Rightarrow> False | Some is_empty \<Rightarrow> \<not> is_empty)"

definition holdsIgnoreRegexes :: "clipboard \<Rightarrow> world \<Rightarrow> bool" where
  "holdsIgnoreRegexes c w =
     (fs_exists (files w) (metadata_ignore c)
      \<and> fs_is_empty (files w) (metadata_ignore c) = Some False)"

definition holdsIgnoreSecrets :: "clipboard \<Rightarrow> world \<Rightarrow> bool" where
  "holdsIgnoreSecrets c w =
     (fs_exists (files w) (metadata_ignore_secret c)
      \<and> fs_is_empty (files w) (metadata_ignore_secret c) = Some False)"

text \<open>The lines of a file, through the helper \<open>fileLines\<close>.\<close>

definition lines_of_file :: "env \<Rightarrow> filesystem \<Rightarrow> path \<Rightarrow> string list" where
  "lines_of_file e fs p = (case fileContents fs p of None \<Rightarrow> [] | Some content \<Rightarrow> fileLines e content)"

text \<open>
  \<open>ignoreRegexes\<close> builds a \<open>std::regex\<close> from every line; the constructor throws on
  a line that is not a regular expression. A regex is kept as its pattern.
\<close>

definition ignoreRegexes :: "env \<Rightarrow> clipboard \<Rightarrow> world \<Rightarrow> exn + string list" where
  "ignoreRegexes e c w =
     (if \<not> holdsIgnoreRegexes c w then Inr []
      else (let regexes = lines_of_file e (files w) (metadata_ignore c) in
            if list_all (regex_valid e) regexes then Inr regexes else Inl Regex_error))"

definition ignoreSecrets :: "env \<Rightarrow> clipboard \<Rightarrow> world \<Rightarrow> string list" where
  "ignoreSecrets e c w =
     (if \<not> holdsIgnoreSecrets c w then []
      else lines_of_file e (files w) (metadata_ignore_secret c))"

subsection \<open>\<open>Clipboard::applyIgnoreRules\<close>\<close>

text \<open>The loop over the regexes on the raw content: each replaces all its matches by nothing.\<close>

definition scrub_content :: "env \<Rightarrow> string \<Rightarrow> string list \<Rightarrow> string" where
  "scrub_content e content regexes =
     foldl (\<lambda>content regex. regex_replace e content regex) content regexes"

text \<open>The loops of the other branch: a child of the entry whose name matches a regex is removed.\<close>

definition remove_matching :: "env \<Rightarrow> path \<Rightarrow> string list \<Rightarrow> filesystem \<Rightarrow> filesystem" where
  "remove_matching e d regexes fs =
     foldl (\<lambda>fs regex.
        foldl (\<lambda>fs name. if regex_match e name regex then remove_all (d @ [name]) fs else fs)
          fs (children fs d))
       fs regexes"

text \<open>
  The digest as the string stream builds it: two lower-case hexadecimal digits for
  every byte.
\<close>

definition hex_byte :: "8 word \<Rightarrow> string" where
  "hex_byte byte =
     [''0123456789abcdef'' ! (unat byte div 16), ''0123456789abcdef'' ! (unat byte mod 16)]"

definition hex_digest :: "8 word list \<Rightarrow> string" where
  "hex_digest hash = concat (map hex_byte hash)"

text \<open>The loop over the secrets: the first one that equals the digest empties the raw file.\<close>

fun secret_loop :: "env \<Rightarrow> path \<Rightarrow> string \<Rightarrow> string list \<Rightarrow> filesystem \<Rightarrow> filesystem" where
  "secret_loop e raw content [] fs = fs"
| "secret_loop e raw content (secret # secrets) fs =
     (if hex_digest (SHA512 e content) = secret then writeToFile raw [] fs
      else secret_loop e raw content secrets fs)"

text \<open>The first block of \<open>applyIgnoreRules\<close>: the regexes.\<close>

definition ignore_regex_pass :: "env \<Rightarrow> clipboard \<Rightarrow> world \<Rightarrow> (unit, clipboard \<times> world) outcome" where
  "ignore_regex_pass e c w =
     (if holdsIgnoreRegexes c w then
        (case ignoreRegexes e c w of
           Inl x \<Rightarrow> Thrown x (c, w)
         | Inr regexes \<Rightarrow>
             if holdsRawDataInCurrentEntry c w then
               (case fileContents (files w) (data_raw c) of
                  None \<Rightarrow> Thrown Bad_optional_access (c, w)
                | Some content \<Rightarrow>
                    Returned () (c, w\<lparr>files :=
                      writeToFile (data_raw c) (scrub_content e content regexes) (files w)\<rparr>))
             else Returned () (c, w\<lparr>files := remove_matching e (data c) regexes (files w)\<rparr>))
      else Returned () (c, w))"

text \<open>The second block: the secrets.\<close>

definition ignore_secret_pass :: "env \<Rightarrow> clipboard \<Rightarrow> world \<Rightarrow> (unit, clipboard \<times> world) outcome" where
  "ignore_secret_pass e c w =
     (if holdsIgnoreSecrets c w then
        (let secrets = ignoreSecrets e c w in
         if \<not> holdsRawDataInCurrentEntry c w then Returned () (c, w)
         else
           (case fileContents (files w) (data_raw c) of
              None \<Rightarrow> Thrown Bad_optional_access (c, w)
            | Some content \<Rightarrow>
                Returned () (c, w\<lparr>files := secret_loop e (data_raw c) content secrets (files w)\<rparr>)))
      else Returned () (c, w))"

definition applyIgnoreRules :: "env \<Rightarrow> clipboard \<Rightarrow> world \<Rightarrow> (unit, clipboard \<times> world) outcome" where
  "applyIgnoreRules e c w =
     (case ignore_regex_pass e c w of
        Returned u (c1, w1) \<Rightarrow> ignore_secret_pass e c1 w1
      | Thrown x s \<Rightarrow> Thrown x s
      | Exited n s \<Rightarrow> Exited n s
      | Undefined_behaviour \<Rightarrow> Undefined_behaviour)"

subsection \<open>\<open>Clipboard::getLock\<close>\<close>

text \<open>
  Modelled from the spec: \<open>isLocked\<close> is defined outside \<open>clipboard.cpp\<close>; the lock is
  held when the lock file exists and is not empty.
\<close>

definition isLocked :: "clipboard \<Rightarrow> world \<Rightarrow> bool" where
  "isLocked c w =
     (fs_exists (files w) (metadata_lock c)
      \<and> fs_is_empty (files w) (metadata_lock c) = Some False)"

text \<open>
  The \<open>while (true)\<close> loop, by rounds: it ends at the first round where \<open>kill(pid, 0)\<close>
  fails or the lock file is gone, and sleeps otherwise. The loop need not end, so the
  result is optional: \<open>None\<close> when no round ends it.
\<close>

partial_function (option) wait_for_lock :: "env \<Rightarrow> int \<Rightarrow> nat \<Rightarrow> nat option" where
  "wait_for_lock e pid i =
     (if kill0 e i pid = - 1 then Some i
      else if \<not> lock_present e i then Some i
      else wait_for_lock e pid (i + 1))"

definition getLock :: "env \<Rightarrow> clipboard \<Rightarrow> world \<Rightarrow> (unit, clipboard \<times> world) outcome option" where
  "getLock e c w =
     (let locked = w\<lparr>files := writeToFile (metadata_lock c) (to_string (thisPID e)) (files w)\<rparr> in
      if isLocked c w then
        (case fileContents (files w) (metadata_lock c) of
           None \<Rightarrow> Some (Thrown Bad_optional_access (c, w))
         | Some content \<Rightarrow>
             (case stoi content of
                Inl x \<Rightarrow> Some (Thrown x (c, w))
              | Inr pid \<Rightarrow>
                  if getpgrp e = getpgid e pid then Some (Returned () (c, w))
                  else (case wait_for_lock e pid 0 of
                          None \<Rightarrow> None
                        | Some i \<Rightarrow> Some (Returned () (c, locked)))))
      else Some (Returned () (c, locked)))"

subsection \<open>\<open>Clipboard::makeNewEntry\<close>, \<open>setEntry\<close> and \<open>entryPathFor\<close>\<close>

text \<open>
  \<open>entryIndex.front()\<close> on an empty deque is undefined; \<open>entryIndex.at\<close> throws
  \<open>std::out_of_range\<close> past the end, and nothing in these two methods catches it. The
  new front is computed in \<open>unsigned long\<close>.
\<close>

definition entry_path :: "env \<Rightarrow> clipboard \<Rightarrow> ulong \<Rightarrow> path" where
  "entry_path e c ordinal = root c @ [data_directory e, to_string (unat ordinal)]"

definition makeNewEntry :: "env \<Rightarrow> clipboard \<Rightarrow> world \<Rightarrow> (unit, clipboard \<times> world) outcome" where
  "makeNewEntry e c w =
     (if entryIndex c = [] then Undefined_behaviour
      else
        (let c1 = c\<lparr>entryIndex := (hd (entryIndex c) + 1) # entryIndex c\<rparr> in
         if this_entry c1 < length (entryIndex c1) then
           (let d = entry_path e c1 (entryIndex c1 ! this_entry c1);
                c2 = c1\<lparr>data := d, data_raw := d @ [data_file_name e]\<rparr>
            in Returned () (c2, w\<lparr>files := create_directories d (files w)\<rparr>))
         else Thrown Out_of_range (c1, w)))"

definition setEntry :: "env \<Rightarrow> nat \<Rightarrow> clipboard \<Rightarrow> world \<Rightarrow> (unit, clipboard \<times> world) outcome" where
  "setEntry e entry c w =
     (let c1 = c\<lparr>this_entry := entry\<rparr> in
      if this_entry c1 < length (entryIndex c1) then
        (let d = entry_path e c1 (entryIndex c1 ! this_entry c1)
         in Returned () (c1\<lparr>data := d, data_raw := d @ [data_file_name e]\<rparr>, w))
      else Thrown Out_of_range (c1, w))"

definition entryPathFor :: "env \<Rightarrow> nat \<Rightarrow> clipboard \<Rightarrow> world \<Rightarrow> (path, clipboard \<times> world) outcome" where
  "entryPathFor e entry c w =
     (if entry < length (entryIndex c) then
        Returned (entry_path e c (entryIndex c ! entry)) (c, w)
      else Exited EXIT_FAILURE (c, no_such_entry entry w))"

subsection \<open>\<open>Clipboard::trimHistoryEntries\<close>: reading the budgets\<close>

record budgets =
  maximumBytes :: nat
  maximumSeconds :: nat
  maximumEntries :: nat

text \<open>
  \<open>std::string lastTwoChars(setting.end() - 2, setting.end())\<close>, then lower-cased.
  For a setting shorter than two characters \<open>setting.end() - 2\<close> lies before
  \<open>setting.begin()\<close>: the characters copied are then the bytes in front of the
  buffer of the string, followed by the setting itself. Whatever those bytes are, the
  string built has two characters.
\<close>

definition lastTwoChars :: "env \<Rightarrow> string \<Rightarrow> string" where
  "lastTwoChars e setting =
     map tolower
       (if 2 \<le> length setting then drop (length setting - 2) setting
        else if length setting = 1 then byte_before e setting 1 # setting
        else [byte_before e setting 2, byte_before e setting 1])"

text \<open>
  An assignment whose right-hand side may throw: the \<open>catch (...) {}\<close> of the loop
  leaves the budgets as they were.
\<close>

definition assign_bytes :: "budgets \<Rightarrow> exn + nat \<Rightarrow> budgets" where
  "assign_bytes b r = (case r of Inl x \<Rightarrow> b | Inr v \<Rightarrow> b\<lparr>maximumBytes := v\<rparr>)"

definition assign_seconds :: "budgets \<Rightarrow> exn + nat \<Rightarrow> budgets" where
  "assign_seconds b r = (case r of Inl x \<Rightarrow> b | Inr v \<Rightarrow> b\<lparr>maximumSeconds := v\<rparr>)"

definition assign_entries :: "budgets \<Rightarrow> exn + nat \<Rightarrow> budgets" where
  "assign_entries b r = (case r of Inl x \<Rightarrow> b | Inr v \<Rightarrow> b\<lparr>maximumEntries := v\<rparr>)"

text \<open>One round of the loop over the settings.\<close>

definition parse_setting :: "env \<Rightarrow> budgets \<Rightarrow> string \<Rightarrow> budgets" where
  "parse_setting e b setting =
     (let l = lastTwoChars e setting in
      if l = ''tb'' then assign_bytes b (stold_scaled e setting (1024 * 1024 * 1024 * 1024))
      else if l = ''gb'' then assign_bytes b (stold_scaled e setting (1024 * 1024 * 1024))
      else if l = ''mb'' then assign_bytes b (stold_scaled e setting (1024 * 1024))
      else if l = ''kb'' then assign_bytes b (stold_scaled e setting 1024)
      else if l ! 1 = CHR ''b'' then assign_bytes b (stoull setting)
      else if l ! 1 = CHR ''y'' then assign_seconds b (stold_scaled e setting (60 * 60 * 24 * 365))
      else if l ! 1 = CHR ''m'' then assign_seconds b (stold_scaled e setting (60 * 60 * 24 * 30))
      else if l ! 1 = CHR ''w'' then assign_seconds b (stold_scaled e setting (60 * 60 * 24 * 7))
      else if l ! 1 = CHR ''d'' then assign_seconds b (stold_scaled e setting (60 * 60 * 24))
      else if l ! 1 = CHR ''h'' then assign_seconds b (stold_scaled e setting (60 * 60))
      else if l ! 1 = CHR ''s'' then assign_seconds b (stoul setting)
      else assign_entries b (stoul setting))"

text \<open>The loop over the settings, from the first to the last.\<close>

fun parse_settings :: "env \<Rightarrow> budgets \<Rightarrow> string list \<Rightarrow> budgets" where
  "parse_settings e b [] = b"
| "parse_settings e b (setting # settings) = parse_settings e (parse_setting e b setting) settings"

subsection \<open>\<open>Clipboard::trimHistoryEntries\<close>: the three passes\<close>

text \<open>\<open>entryIndex.size() - 1\<close> in \<open>size_t\<close>: on an empty index it is \<open>2 ^ 64 - 1\<close>.\<close>

definition last_position :: "clipboard \<Rightarrow> nat" where
  "last_position c = (length (entryIndex c) + 2 ^ 64 - 1) mod 2 ^ 64"

text \<open>\<open>a -= b\<close> in \<open>size_t\<close>.\<close>

definition size_t_minus :: "nat \<Rightarrow> nat \<Rightarrow> nat" where
  "size_t_minus a b = (a + 2 ^ 64 - b mod 2 ^ 64) mod 2 ^ 64"

definition pop_back :: "clipboard \<Rightarrow> clipboard" where
  "pop_back c = c\<lparr>entryIndex := butlast (entryIndex c)\<rparr>"

text \<open>The loop of the size budget.\<close>

function size_loop ::
  "env \<Rightarrow> nat \<Rightarrow> nat \<Rightarrow> clipboard \<Rightarrow> world \<Rightarrow> (unit, clipboard \<times> world) outcome" where
  "size_loop e maximum_bytes startingClipboardSize c w =
     (if startingClipboardSize > maximum_bytes then
        (case entryPathFor e (last_position c) c w of
           Returned oldestPath (c1, w1) \<Rightarrow>
             (let oldestEntrySize = totalDirectorySize (files w1) oldestPath;
                  w2 = w1\<lparr>files := remove_all oldestPath (files w1)\<rparr>;
                  c2 = pop_back c1
              in size_loop e maximum_bytes (size_t_minus startingClipboardSize oldestEntrySize) c2 w2)
         | Thrown x s \<Rightarrow> Thrown x s
         | Exited n s \<Rightarrow> Exited n s
         | Undefined_behaviour \<Rightarrow> Undefined_behaviour)
      else Returned () (c, w))"
  by pat_completeness auto
termination
  by (relation "measure (\<lambda>(e, m, t, c, w). length (entryIndex c))")
     (auto simp: entryPathFor_def pop_back_def split: if_splits)

declare size_loop.simps [simp del]

text \<open>
  The loop of the age budget. \<open>lastModified\<close> is the lambda of the source: the clock
  when \<open>stat\<close> fails, the modification time otherwise. Times are in ticks of the clock.
\<close>

definition lastModified :: "env \<Rightarrow> world \<Rightarrow> path \<Rightarrow> int" where
  "lastModified e w p =
     (if \<not> fs_exists (files w) p then now e else st_mtime e p * clock_period e)"

function age_loop ::
  "env \<Rightarrow> nat \<Rightarrow> clipboard \<Rightarrow> world \<Rightarrow> (unit, clipboard \<times> world) outcome" where
  "age_loop e maximum_seconds c w =
     (case entryPathFor e (last_position c) c w of
        Returned oldest (c1, w1) \<Rightarrow>
          if lastModified e w1 oldest < now e - int maximum_seconds * clock_period e then
            (case entryPathFor e (last_position c1) c1 w1 of
               Returned oldestPath (c2, w2) \<Rightarrow>
                 age_loop e maximum_seconds (pop_back c2)
                   (w2\<lparr>files := remove_all oldestPath (files w2)\<rparr>)
             | Thrown x s \<Rightarrow> Thrown x s
             | Exited n s \<Rightarrow> Exited n s
             | Undefined_behaviour \<Rightarrow> Undefined_behaviour)
          else Returned () (c1, w1)
      | Thrown x s \<Rightarrow> Thrown x s
      | Exited n s \<Rightarrow> Exited n s
      | Undefined_behaviour \<Rightarrow> Undefined_behaviour)"
  by pat_completeness auto
termination
  by (relation "measure (\<lambda>(e, m, c, w). length (entryIndex c))")
     (auto simp: entryPathFor_def pop_back_def split: if_splits)

declare age_loop.simps [simp del]

text \<open>The loop of the count budget.\<close>

function count_loop ::
  "env \<Rightarrow> nat \<Rightarrow> clipboard \<Rightarrow> world \<Rightarrow> (unit, clipboard \<times> world) outcome" where
  "count_loop e maximum_entries c w =
     (if length (entryIndex c) > maximum_entries then
        (case entryPathFor e (last_position c) c w of
           Returned oldestPath (c1, w1) \<Rightarrow>
             count_loop e maximum_entries (pop_back c1)
               (w1\<lparr>files := remove_all oldestPath (files w1)\<rparr>)
         | Thrown x s \<Rightarrow> Thrown x s
         | Exited n s \<Rightarrow> Exited n s
         | Undefined_behaviour \<Rightarrow> Undefined_behaviour)
      else Returned () (c, w))"
  by pat_completeness auto
termination
  by (relation "measure (\<lambda>(e, m, c, w). length (entryIndex c))")
     (auto simp: entryPathFor_def pop_back_def split: if_splits)

declare count_loop.simps [simp del]

text \<open>The three blocks that follow the loop over the settings.\<close>

definition size_pass :: "env \<Rightarrow> budgets \<Rightarrow> clipboard \<Rightarrow> world \<Rightarrow> (unit, clipboard \<times> world) outcome" where
  "size_pass e b c w =
     (if maximumBytes b > 0 then
        size_loop e (maximumBytes b) (totalDirectorySize (files w) (root c) mod 2 ^ 64) c w
      else Returned () (c, w))"

definition age_pass :: "env \<Rightarrow> budgets \<Rightarrow> clipboard \<Rightarrow> world \<Rightarrow> (unit, clipboard \<times> world) outcome" where
  "age_pass e b c w =
     (if maximumSeconds b > 0 then age_loop e (maximumSeconds b) c w
      else Returned () (c, w))"

definition count_pass :: "env \<Rightarrow> budgets \<Rightarrow> clipboard \<Rightarrow> world \<Rightarrow> (unit, clipboard \<times> world) outcome" where
  "count_pass e b c w =
     (if maximumEntries b > 0 then
        (if length (entryIndex c) \<le> maximumEntries b \<or> maximumEntries b = 0
         then Returned () (c, w)
         else count_loop e (maximumEntries b) c w)
      else Returned () (c, w))"

definition trim_passes :: "env \<Rightarrow> budgets \<Rightarrow> clipboard \<Rightarrow> world \<Rightarrow> (unit, clipboard \<times> world) outcome" where
  "trim_passes e b c w =
     (case size_pass e b c w of
        Returned u (c1, w1) \<Rightarrow>
          (case age_pass e b c1 w1 of
             Returned u (c2, w2) \<Rightarrow> count_pass e b c2 w2
           | Thrown x s \<Rightarrow> Thrown x s
           | Exited n s \<Rightarrow> Exited n s
           | Undefined_behaviour \<Rightarrow> Undefined_behaviour)
      | Thrown x s \<Rightarrow> Thrown x s
      | Exited n s \<Rightarrow> Exited n s
      | Undefined_behaviour \<Rightarrow> Undefined_behaviour)"

definition trimHistoryEntries :: "env \<Rightarrow> clipboard \<Rightarrow> world \<Rightarrow> (unit, clipboard \<times> world) outcome" where
  "trimHistoryEntries e c w =
     (if maximumHistorySize e = [] then Returned () (c, w)
      else
        (let settings = regexSplit e (maximumHistorySize e);
             b = parse_settings e \<lparr>maximumBytes = 0, maximumSeconds = 0, maximumEntries = 0\<rparr>
                   settings
         in trim_passes e b c w))"

section \<open>Concrete surroundings for the examples\<close>

text \<open>
  The examples below run the model in these surroundings. The stand-ins for the
  libraries are small: a file is one line, a retention string one token, a pattern
  stands for the set of characters it lists (all of them are deleted), and the digest
  has two bytes. Theorems never depend on them.
\<close>

definition demo_env :: env where
  "demo_env =
     \<lparr>data_directory = ''data'', metadata_directory = ''metadata'',
      data_file_name = ''rawdata.clipboard'', ignore_regex_name = ''ignore_regex'',
      ignore_secret_name = ''ignore_secret'', lock_name = ''lock'', notes_name = ''notes'',
      original_files_name = ''originals'', script_name = ''script'',
      script_config_name = ''script_config'', storage_protocol_version_name = ''version'',
      storage_protocol_version = ''3'',
      global_path_persistent = [''home''], global_path_temporary = [''tmp''],
      maximumHistorySize = [],
      isPersistent = (\<lambda>name. False),
      fileLines = (\<lambda>content. [content]),
      regexSplit = (\<lambda>content. [content]),
      regex_valid = (\<lambda>pattern. True),
      regex_replace = (\<lambda>content pattern. filter (\<lambda>c. c \<notin> set pattern) content),
      regex_match = (\<lambda>name pattern. name = pattern),
      SHA512 = (\<lambda>content. [word_of_nat (length content), 171]),
      stold_scaled =
        (\<lambda>setting k. case stoul setting of Inl x \<Rightarrow> Inl x | Inr n \<Rightarrow> Inr (n * k)),
      byte_before = (\<lambda>setting i. CHR 0x00),
      st_mtime = (\<lambda>p. 0), now = 100, clock_period = 1, thisPID = 4242, getpgrp = 1,
      getpgid = (\<lambda>pid. - 1), kill0 = (\<lambda>i pid. - 1), lock_present = (\<lambda>i. True)\<rparr>"

text \<open>The same surroundings with a retention string configured.\<close>

definition demo_retention :: "string \<Rightarrow> env" where
  "demo_retention history_size = demo_env\<lparr>maximumHistorySize := history_size\<rparr>"

definition demo_world :: "filesystem \<Rightarrow> world" where
  "demo_world fs =
     \<lparr>files = fs, clipboard_state = Setup, indicator_running = True, stderr = []\<rparr>"

definition demo_clipboard :: "ulong list \<Rightarrow> clipboard" where
  "demo_clipboard idx =
     \<lparr>this_name = ''clip'', this_entry = 0, is_persistent = False,
      root = [''tmp'', ''clip''], entryIndex = idx,
      data = [''tmp'', ''clip'', ''data'', to_string (unat (hd idx))],
      data_raw = [''tmp'', ''clip'', ''data'', to_string (unat (hd idx)), ''rawdata.clipboard''],
      metadata = [''tmp'', ''clip'', ''metadata''],
      metadata_ignore = [''tmp'', ''clip'', ''metadata'', ''ignore_regex''],
      metadata_ignore_secret = [''tmp'', ''clip'', ''metadata'', ''ignore_secret''],
      metadata_lock = [''tmp'', ''clip'', ''metadata'', ''lock''],
      metadata_notes = [''tmp'', ''clip'', ''metadata'', ''notes''],
      metadata_originals = [''tmp'', ''clip'', ''metadata'', ''originals''],
      metadata_script = [''tmp'', ''clip'', ''metadata'', ''script''],
      metadata_script_config = [''tmp'', ''clip'', ''metadata'', ''script_config''],
      metadata_version = [''tmp'', ''clip'', ''metadata'', ''version'']\<rparr>"

text \<open>A clipboard directory with the entries 0 and 1 and a version file.\<close>

definition demo_files :: filesystem where
  "demo_files =
     [([''tmp'', ''clip''], Directory),
      ([''tmp'', ''clip'', ''data''], Directory),
      ([''tmp'', ''clip'', ''data'', ''0''], Directory),
      ([''tmp'', ''clip'', ''data'', ''0'', ''rawdata.clipboard''], Regular ''first''),
      ([''tmp'', ''clip'', ''data'', ''1''], Directory),
      ([''tmp'', ''clip'', ''data'', ''1'', ''rawdata.clipboard''], Regular ''second''),
      ([''tmp'', ''clip'', ''metadata''], Directory),
      ([''tmp'', ''clip'', ''metadata'', ''version''], Regular ''3.0'')]"

text \<open>What is left of the example directory once the entry 0 is removed.\<close>

definition demo_files_newest :: filesystem where
  "demo_files_newest =
     [([''tmp'', ''clip''], Directory),
      ([''tmp'', ''clip'', ''data''], Directory),
      ([''tmp'', ''clip'', ''data'', ''1''], Directory),
      ([''tmp'', ''clip'', ''data'', ''1'', ''rawdata.clipboard''], Regular ''second''),
      ([''tmp'', ''clip'', ''metadata''], Directory),
      ([''tmp'', ''clip'', ''metadata'', ''version''], Regular ''3.0'')]"

text \<open>What is left of the example directory once both entries are removed.\<close>

definition demo_files_left :: filesystem where
  "demo_files_left =
     [([''tmp'', ''clip''], Directory),
      ([''tmp'', ''clip'', ''data''], Directory),
      ([''tmp'', ''clip'', ''metadata''], Directory),
      ([''tmp'', ''clip'', ''metadata'', ''version''], Regular ''3.0'')]"

text \<open>The entry 0 with a raw file, and the two files of ignore rules, each with a given content.\<close>

definition demo_raw_files :: "string \<Rightarrow> filesystem" where
  "demo_raw_files content =
     [([''tmp'', ''clip'', ''data'', ''0''], Directory),
      ([''tmp'', ''clip'', ''data'', ''0'', ''rawdata.clipboard''], Regular content)]"

definition demo_secret_file :: "string \<Rightarrow> filesystem" where
  "demo_secret_file secrets = [([''tmp'', ''clip'', ''metadata'', ''ignore_secret''], Regular secrets)]"

definition demo_regex_file :: "string \<Rightarrow> filesystem" where
  "demo_regex_file regexes = [([''tmp'', ''clip'', ''metadata'', ''ignore_regex''], Regular regexes)]"

lemmas demo_eval =
  demo_env_def demo_world_def demo_clipboard_def demo_raw_files_def demo_secret_file_def
  demo_regex_file_def to_string.simps digit_char_def
  fs_exists_def fs_is_empty_def fileContents_def writeToFile_def

lemmas parse_simps =
  from_chars_def isdigit_def digits_val_def digit_val_def ULONG_MAX_def

lemmas parse_eval =
  parse_setting_def lastTwoChars_def tolower_def Let_def
  assign_bytes_def assign_seconds_def assign_entries_def stoull_def stoul_def
  scan_integer_def isspace_def isdigit_def digits_val_def digit_val_def ULONG_MAX_def

lemmas fs_eval =
  entry_path_def to_string.simps digit_char_def totalDirectorySize_def remove_all_def
  node_size_def size_t_minus_def pop_back_def no_such_entry_def EXIT_FAILURE_def
  fs_exists_def

section \<open>Notions used in the statements\<close>

text \<open>
  The values of the names that \<open>std::from_chars\<close> accepts, one for each such name,
  in the order of the names.
\<close>

definition parsed_names :: "string list \<Rightarrow> ulong list" where
  "parsed_names names =
     concat (map (\<lambda>n. case from_chars n of Inr v \<Rightarrow> [v] | Inl ec \<Rightarrow> []) names)"

text \<open>
  Nothing is left of the directories of the given ordinals: no path of the file
  system lies at or below one of them.
\<close>

definition dirs_gone :: "env \<Rightarrow> clipboard \<Rightarrow> ulong list \<Rightarrow> filesystem \<Rightarrow> bool" where
  "dirs_gone e c ordinals fs =
     list_all (\<lambda>ordinal. list_all (\<lambda>(q, n). \<not> prefix (entry_path e c ordinal) q) fs) ordinals"

text \<open>
  The relation between the state before and a state after some rounds of the loops:
  the index is a front part of what it was, the directories of the elements dropped
  from its back are gone, and the file system has lost paths only. Every other field
  of the clipboard object is as before.
\<close>

definition shrinks :: "env \<Rightarrow> clipboard \<times> world \<Rightarrow> clipboard \<times> world \<Rightarrow> bool" where
  "shrinks e s s' =
     ((\<exists>k. fst s' = (fst s)\<lparr>entryIndex := take k (entryIndex (fst s))\<rparr>
          \<and> dirs_gone e (fst s) (drop k (entryIndex (fst s))) (files (snd s')))
      \<and> subseq (files (snd s')) (files (snd s)))"

text \<open>
  How a pass can end: it returns, or it exits with \<open>EXIT_FAILURE\<close> on an index that
  has become empty.
\<close>

definition ended :: "(unit, clipboard \<times> world) outcome \<Rightarrow> clipboard \<times> world \<Rightarrow> bool" where
  "ended r s = (r = Returned () s \<or> (r = Exited EXIT_FAILURE s \<and> entryIndex (fst s) = []))"

text \<open>\<open>k\<close> calls of \<open>makeNewEntry\<close>, one after the other, as long as they return.\<close>

fun makeNewEntries :: "env \<Rightarrow> nat \<Rightarrow> clipboard \<Rightarrow> world \<Rightarrow> (unit, clipboard \<times> world) outcome" where
  "makeNewEntries e 0 c w = Returned () (c, w)"
| "makeNewEntries e (Suc k) c w =
     (case makeNewEntry e c w of
        Returned u (c1, w1) \<Rightarrow> makeNewEntries e k c1 w1
      | Thrown x s \<Rightarrow> Thrown x s
      | Exited n s \<Rightarrow> Exited n s
      | Undefined_behaviour \<Rightarrow> Undefined_behaviour)"

text \<open>The ordinals \<open>F + k\<close>, ..., \<open>F + 1\<close> that \<open>k\<close> calls put in front of the index.\<close>

definition new_ordinals :: "ulong \<Rightarrow> nat \<Rightarrow> ulong list" where
  "new_ordinals F k = rev (map (\<lambda>i. F + word_of_nat (Suc i)) [0..<k])"

section \<open>Properties\<close>

subsection \<open>The entry index\<close>

lemma index_step_eq:
  "index_step acc n = acc @ (case from_chars n of Inr v \<Rightarrow> [v] | Inl ec \<Rightarrow> [])"
  by (simp add: index_step_def split: sum.splits)

lemma foldl_index_step: "foldl index_step acc names = acc @ parsed_names names"
  by (induction names arbitrary: acc) (simp_all add: parsed_names_def index_step_eq)

lemma index_of_names_eq:
  "index_of_names names =
     (if parsed_names names = [] then [0] else rev (sort (parsed_names names)))"
  by (simp add: index_of_names_def foldl_index_step Let_def)

lemma index_of_names_not_Nil: "index_of_names names \<noteq> []"
proof (cases "parsed_names names = []")
  case True
  then show ?thesis by (simp add: index_of_names_eq)
next
  case False
  then have "sort (parsed_names names) \<noteq> []"
    by (metis length_0_conv length_sort)
  with False show ?thesis by (simp add: index_of_names_eq)
qed

lemma sorted_desc_rev_sort: "sorted_wrt (\<ge>) (rev (sort (xs :: ulong list)))"
  by (simp add: sorted_wrt_rev)

lemma strict_desc_rev_sort:
  "distinct xs \<Longrightarrow> sorted_wrt (>) (rev (sort (xs :: ulong list)))"
  by (simp add: sorted_wrt_rev strict_sorted_iff)

text \<open>
  C2 (as amended). \<open>generatedEntryIndex\<close> runs the loop and the sort of
  \<open>index_of_names\<close> on the names \<open>readdir\<close> gives for the entries directory. For
  every list of names the result holds the value of each name that
  \<open>std::from_chars\<close> accepts, once for every such name, in non-increasing order, and
  is \<open>[0]\<close> when no name is accepted. A name is accepted when it starts with a digit
  and the number its leading digits spell fits \<open>unsigned long\<close>; so two names can give
  the same value, which is then repeated. Where the values are pairwise distinct
  the index is strictly decreasing.
\<close>

theorem index_of_names_sorted_values:
  "fst (generatedEntryIndex e r w) =
     index_of_names (readdir (files (snd (generatedEntryIndex e r w))) (r @ [data_directory e]))
   \<and> index_of_names names =
     (if parsed_names names = [] then [0] else rev (sort (parsed_names names)))
   \<and> sorted_wrt (\<ge>) (index_of_names names)
   \<and> (distinct (parsed_names names) \<longrightarrow> sorted_wrt (>) (index_of_names names))"
proof -
  have link: "fst (generatedEntryIndex e r w) =
     index_of_names (readdir (files (snd (generatedEntryIndex e r w))) (r @ [data_directory e]))"
    by (simp add: generatedEntryIndex_def Let_def)
  have desc: "sorted_wrt (\<ge>) (index_of_names names)"
    by (simp add: index_of_names_eq sorted_desc_rev_sort)
  have strict: "distinct (parsed_names names) \<longrightarrow> sorted_wrt (>) (index_of_names names)"
    by (simp add: index_of_names_eq strict_desc_rev_sort)
  from link desc strict show ?thesis
    using index_of_names_eq [of names] by simp
qed

theorem index_of_names_sorted_values_witness:
  "distinct (parsed_names [''.'', ''..'', ''3'', ''notes'', ''12''])
   \<and> index_of_names [''.'', ''..'', ''3'', ''notes'', ''12''] = [12, 3]
   \<and> sorted_wrt (>) (index_of_names [''.'', ''..'', ''3'', ''notes'', ''12''])"
  using index_of_names_sorted_values [of demo_env "[]" "demo_world []"
      "[''.'', ''..'', ''3'', ''notes'', ''12'']"]
  by (simp add: parsed_names_def parse_simps)

text \<open>
  The claim as stated fails: a directory with the children \<open>7\<close>, \<open>07\<close> and \<open>7up\<close>
  gives the index \<open>[7, 7, 7]\<close>, which repeats an element and holds the value of a
  name that is not a decimal integer.
\<close>

theorem index_repeats_counterexample:
  "fst (generatedEntryIndex demo_env [''tmp'', ''clip'']
     (demo_world
        [([''tmp'', ''clip'', ''data''], Directory),
         ([''tmp'', ''clip'', ''data'', ''7''], Directory),
         ([''tmp'', ''clip'', ''data'', ''07''], Directory),
         ([''tmp'', ''clip'', ''data'', ''7up''], Regular ''x'')])) = [7, 7, 7]
   \<and> \<not> distinct [7, 7, 7 :: ulong]"
  by (simp add: generatedEntryIndex_def create_directories_def demo_env_def demo_world_def
      readdir_def children_def fs_exists_def index_of_names_def index_step_def parse_simps)

subsection \<open>Opening a clipboard at its newest entry\<close>

text \<open>
  C10. The generated index is never empty, so position 0 exists: whatever the name
  and the state of the disk, the constructor called with entry 0 returns (it does not
  take the branch that reports a missing history entry and exits), and the current
  entry is the front of the index.
\<close>

theorem Clipboard_entry_0_returns:
  "index_of_names names \<noteq> []
   \<and> (\<exists>c w'. Clipboard e clipboard_name 0 w = Returned () (c, w')
        \<and> this_entry c = 0 \<and> entryIndex c \<noteq> []
        \<and> data c = root c @ [data_directory e, to_string (unat (hd (entryIndex c)))]
        \<and> stderr w' = stderr w)"
proof -
  obtain idx w1 where g: "generatedEntryIndex e
      ((if isPersistent e clipboard_name then global_path_persistent e
        else global_path_temporary e) @ [clipboard_name]) w = (idx, w1)"
    by (cases "generatedEntryIndex e
      ((if isPersistent e clipboard_name then global_path_persistent e
        else global_path_temporary e) @ [clipboard_name]) w") 
  then have idx: "idx \<noteq> []" and w1: "stderr w1 = stderr w"
    using index_of_names_not_Nil by (auto simp: generatedEntryIndex_def Let_def)
  then have "0 < length idx" by simp
  with g idx w1 have "\<exists>c w'. Clipboard e clipboard_name 0 w = Returned () (c, w')
        \<and> this_entry c = 0 \<and> entryIndex c \<noteq> []
        \<and> data c = root c @ [data_directory e, to_string (unat (hd (entryIndex c)))]
        \<and> stderr w' = stderr w"
    by (simp add: Clipboard_def Let_def hd_conv_nth)
  then show ?thesis using index_of_names_not_Nil by blast
qed

subsection \<open>Retention: the rounds of the three loops\<close>

lemma last_position_lt: "last_position c < length (entryIndex c) \<longleftrightarrow> entryIndex c \<noteq> []"
proof (cases "entryIndex c")
  case Nil
  then show ?thesis by (simp add: last_position_def)
next
  case (Cons a list)
  then have "last_position c = length list mod 2 ^ 64"
    by (simp add: last_position_def)
  also have "\<dots> \<le> length list" by simp
  finally show ?thesis using Cons by simp
qed

lemma last_position_eq:
  assumes "entryIndex c \<noteq> []" and "length (entryIndex c) \<le> 2 ^ 64"
  shows "last_position c = length (entryIndex c) - 1"
proof -
  have "length (entryIndex c) + 2 ^ 64 - 1 = (length (entryIndex c) - 1) + 2 ^ 64"
    using assms(1) by (cases "entryIndex c") simp_all
  then have "last_position c = (length (entryIndex c) - 1) mod 2 ^ 64"
    unfolding last_position_def by (simp only: mod_add_self2)
  moreover have "length (entryIndex c) - 1 < 2 ^ 64"
    using assms by (cases "entryIndex c") simp_all
  ultimately show ?thesis by (simp only: mod_less)
qed

lemma drop_take_split: "k2 \<le> k1 \<Longrightarrow> drop k2 (take k1 xs) @ drop k1 xs = drop k2 xs"
proof -
  assume le: "k2 \<le> k1"
  have "drop k2 xs = drop k2 (take k1 xs @ drop k1 xs)" by simp
  also have "\<dots> = drop k2 (take k1 xs) @ drop (k2 - length (take k1 xs)) (drop k1 xs)"
    by (rule drop_append)
  also have "drop (k2 - length (take k1 xs)) (drop k1 xs) = drop k1 xs"
    using le by (cases "k1 \<le> length xs") (simp_all add: min_def)
  finally show ?thesis by simp
qed

lemma dirs_gone_append:
  "dirs_gone e c (xs @ ys) fs \<longleftrightarrow> dirs_gone e c xs fs \<and> dirs_gone e c ys fs"
  by (simp add: dirs_gone_def)

lemma list_all_subseq: "subseq xs ys \<Longrightarrow> list_all P ys \<Longrightarrow> list_all P xs"
  by (induction rule: list_emb.induct) auto

lemma dirs_gone_subseq: "subseq fs' fs \<Longrightarrow> dirs_gone e c os fs \<Longrightarrow> dirs_gone e c os fs'"
  unfolding dirs_gone_def by (induction os) (auto intro: list_all_subseq)

lemma dirs_gone_root: "root c' = root c \<Longrightarrow> dirs_gone e c' = dirs_gone e c"
  by (intro ext) (simp add: dirs_gone_def entry_path_def)

lemma dirs_gone_remove_all: "dirs_gone e c [k] (remove_all (entry_path e c k) fs)"
  by (auto simp: dirs_gone_def remove_all_def list_all_iff)

lemma shrinks_refl: "shrinks e s s"
  unfolding shrinks_def
  by (auto simp: dirs_gone_def intro!: exI [of _ "length (entryIndex (fst s))"])

lemma shrinks_exit: "shrinks e (c, w) (c, no_such_entry k w)"
  unfolding shrinks_def
  by (auto simp: dirs_gone_def no_such_entry_def intro!: exI [of _ "length (entryIndex c)"])

lemma shrinks_trans:
  assumes "shrinks e s s1" and "shrinks e s1 s2"
  shows "shrinks e s s2"
proof -
  obtain c w c1 w1 c2 w2 where [simp]: "s = (c, w)" "s1 = (c1, w1)" "s2 = (c2, w2)"
    by (cases s, cases s1, cases s2) auto
  from assms(1) obtain k1 where c1: "c1 = c\<lparr>entryIndex := take k1 (entryIndex c)\<rparr>"
    and g1: "dirs_gone e c (drop k1 (entryIndex c)) (files w1)"
    and f1: "subseq (files w1) (files w)"
    by (auto simp: shrinks_def)
  from assms(2) obtain k2 where c2: "c2 = c1\<lparr>entryIndex := take k2 (entryIndex c1)\<rparr>"
    and g2: "dirs_gone e c1 (drop k2 (entryIndex c1)) (files w2)"
    and f2: "subseq (files w2) (files w1)"
    by (auto simp: shrinks_def)
  have root: "root c1 = root c" by (simp add: c1)
  have g1': "dirs_gone e c (drop k1 (entryIndex c)) (files w2)"
    using f2 g1 by (rule dirs_gone_subseq)
  have g2': "dirs_gone e c (drop k2 (take k1 (entryIndex c))) (files w2)"
    using g2 unfolding dirs_gone_root [OF root] by (simp add: c1)
  have idx: "c2 = c\<lparr>entryIndex := take (min k2 k1) (entryIndex c)\<rparr>"
    by (simp add: c2 c1)
  have "dirs_gone e c (drop (min k2 k1) (entryIndex c)) (files w2)"
  proof (cases "k2 \<le> k1")
    case True
    then have "drop (min k2 k1) (entryIndex c)
        = drop k2 (take k1 (entryIndex c)) @ drop k1 (entryIndex c)"
      by (simp add: drop_take_split min_def)
    with g1' g2' show ?thesis by (simp add: dirs_gone_append)
  next
    case False
    with g1' show ?thesis by (simp add: min_def)
  qed
  moreover have "subseq (files w2) (files w)"
    using f2 f1 by (rule subseq_order.trans)
  ultimately show ?thesis unfolding shrinks_def using idx by auto
qed

lemma shrinks_pop:
  assumes "entryIndex c \<noteq> []" and "length (entryIndex c) \<le> 2 ^ 64"
  shows "shrinks e (c, w)
     (pop_back c, w\<lparr>files := remove_all (entry_path e c (entryIndex c ! last_position c)) (files w)\<rparr>)"
proof -
  let ?k = "length (entryIndex c) - 1"
  have pos: "last_position c = ?k" using assms by (rule last_position_eq)
  have "drop ?k (entryIndex c) = [entryIndex c ! ?k]"
    using assms(1) by (metis append_butlast_last_id butlast_conv_take last_conv_nth
        append_take_drop_id same_append_eq)
  then have "dirs_gone e c (drop ?k (entryIndex c))
      (remove_all (entry_path e c (entryIndex c ! last_position c)) (files w))"
    using dirs_gone_remove_all [of e c "entryIndex c ! ?k" "files w"] by (simp add: pos)
  moreover have "pop_back c = c\<lparr>entryIndex := take ?k (entryIndex c)\<rparr>"
    by (simp add: pop_back_def butlast_conv_take)
  moreover have "subseq (remove_all (entry_path e c (entryIndex c ! last_position c)) (files w))
      (files w)"
    by (simp add: remove_all_def)
  ultimately show ?thesis unfolding shrinks_def by auto
qed

lemma shrinksD:
  assumes "shrinks e (c, w) (c', w')"
  shows "root c' = root c"
    and "\<exists>k. entryIndex c' = take k (entryIndex c)
            \<and> dirs_gone e c (drop k (entryIndex c)) (files w')"
    and "subseq (files w') (files w)"
  using assms by (auto simp: shrinks_def)

lemma length_pop_back: "length (entryIndex c) \<le> n \<Longrightarrow> length (entryIndex (pop_back c)) \<le> n"
  by (simp add: pop_back_def)

lemma last_position_last:
  "entryIndex c \<noteq> [] \<Longrightarrow> length (entryIndex c) \<le> 2 ^ 64 \<Longrightarrow>
     entryIndex c ! last_position c = last (entryIndex c)"
  by (simp add: last_position_eq last_conv_nth)

lemma size_loop_stop: "\<not> B < t \<Longrightarrow> size_loop e B t c w = Returned () (c, w)"
  by (simp add: size_loop.simps [of e B t c w])

lemma size_loop_exit:
  "B < t \<Longrightarrow> entryIndex c = [] \<Longrightarrow>
     size_loop e B t c w = Exited EXIT_FAILURE (c, no_such_entry (2 ^ 64 - 1) w)"
  by (simp add: size_loop.simps [of e B t c w] entryPathFor_def last_position_def)

lemma size_loop_step:
  "B < t \<Longrightarrow> entryIndex c \<noteq> [] \<Longrightarrow> length (entryIndex c) \<le> 2 ^ 64 \<Longrightarrow>
     size_loop e B t c w =
       size_loop e B
         (size_t_minus t (totalDirectorySize (files w) (entry_path e c (last (entryIndex c)))))
         (pop_back c)
         (w\<lparr>files := remove_all (entry_path e c (last (entryIndex c))) (files w)\<rparr>)"
  by (simp add: size_loop.simps [of e B t c w] entryPathFor_def last_position_lt
      last_position_last Let_def)

lemma count_loop_stop:
  "\<not> N < length (entryIndex c) \<Longrightarrow> count_loop e N c w = Returned () (c, w)"
  by (simp add: count_loop.simps [of e N c w])

lemma count_loop_step:
  "N < length (entryIndex c) \<Longrightarrow> length (entryIndex c) \<le> 2 ^ 64 \<Longrightarrow>
     count_loop e N c w =
       count_loop e N (pop_back c)
         (w\<lparr>files := remove_all (entry_path e c (last (entryIndex c))) (files w)\<rparr>)"
proof -
  assume a: "N < length (entryIndex c)" "length (entryIndex c) \<le> 2 ^ 64"
  then have ne: "entryIndex c \<noteq> []" by auto
  with a show ?thesis
    by (simp add: count_loop.simps [of e N c w] entryPathFor_def last_position_lt
      last_position_last)
qed

lemma size_loop_ended:
  "length (entryIndex c) \<le> 2 ^ 64 \<Longrightarrow>
     \<exists>s'. ended (size_loop e B t c w) s' \<and> shrinks e (c, w) s'"
proof (induction e B t c w rule: size_loop.induct)
  case (1 e B t c w)
  show ?case
  proof (cases "t > B")
    case False
    then show ?thesis
      by (auto simp: size_loop.simps [of e B t c w] ended_def shrinks_refl)
  next
    case True
    show ?thesis
    proof (cases "entryIndex c = []")
      case Nil: True
      then have "entryPathFor e (last_position c) c w
          = Exited EXIT_FAILURE (c, no_such_entry (last_position c) w)"
        by (simp add: entryPathFor_def)
      with True Nil show ?thesis
        by (auto simp: size_loop.simps [of e B t c w] ended_def shrinks_exit)
    next
      case False
      then have lt: "last_position c < length (entryIndex c)"
        by (simp add: last_position_lt)
      define p where "p = entry_path e c (entryIndex c ! last_position c)"
      have ep: "entryPathFor e (last_position c) c w = Returned p (c, w)"
        using lt by (simp add: entryPathFor_def p_def)
      define w2 where "w2 = w\<lparr>files := remove_all p (files w)\<rparr>"
      define t2 where "t2 = size_t_minus t (totalDirectorySize (files w) p)"
      have step: "size_loop e B t c w = size_loop e B t2 (pop_back c) w2"
        using True ep by (simp add: size_loop.simps [of e B t c w] Let_def w2_def t2_def)
      have "length (entryIndex (pop_back c)) \<le> 2 ^ 64"
        using "1.prems" by (rule length_pop_back)
      with "1.IH" [OF True ep refl refl refl refl]
      obtain s' where "ended (size_loop e B t2 (pop_back c) w2) s'"
        "shrinks e (pop_back c, w2) s'"
        by (auto simp: w2_def t2_def)
      moreover have "shrinks e (c, w) (pop_back c, w2)"
        unfolding w2_def p_def using False "1.prems" by (rule shrinks_pop)
      ultimately show ?thesis
        using step shrinks_trans by metis
    qed
  qed
qed

lemma age_loop_ended:
  "length (entryIndex c) \<le> 2 ^ 64 \<Longrightarrow>
     \<exists>s'. ended (age_loop e S c w) s' \<and> shrinks e (c, w) s'"
proof (induction e S c w rule: age_loop.induct)
  case (1 e S c w)
  show ?case
  proof (cases "entryIndex c = []")
    case True
    then have "entryPathFor e (last_position c) c w
        = Exited EXIT_FAILURE (c, no_such_entry (last_position c) w)"
      by (simp add: entryPathFor_def)
    with True show ?thesis
      by (auto simp: age_loop.simps [of e S c w] ended_def shrinks_exit)
  next
    case False
    then have lt: "last_position c < length (entryIndex c)"
      by (simp add: last_position_lt)
    define p where "p = entry_path e c (entryIndex c ! last_position c)"
    have ep: "entryPathFor e (last_position c) c w = Returned p (c, w)"
      using lt by (simp add: entryPathFor_def p_def)
    show ?thesis
    proof (cases "lastModified e w p < now e - int S * clock_period e")
      case old: True
      define w2 where "w2 = w\<lparr>files := remove_all p (files w)\<rparr>"
      have step: "age_loop e S c w = age_loop e S (pop_back c) w2"
        using old ep by (simp add: age_loop.simps [of e S c w] w2_def)
      have "length (entryIndex (pop_back c)) \<le> 2 ^ 64"
        using "1.prems" by (rule length_pop_back)
      with "1.IH" [OF ep refl old ep refl]
      obtain s' where "ended (age_loop e S (pop_back c) w2) s'"
        "shrinks e (pop_back c, w2) s'"
        by (auto simp: w2_def)
      moreover have "shrinks e (c, w) (pop_back c, w2)"
        unfolding w2_def p_def using False "1.prems" by (rule shrinks_pop)
      ultimately show ?thesis
        using step shrinks_trans by metis
    next
      case False
      with ep show ?thesis
        by (auto simp: age_loop.simps [of e S c w] ended_def shrinks_refl)
    qed
  qed
qed

lemma count_loop_Returned:
  "length (entryIndex c) \<le> 2 ^ 64 \<Longrightarrow>
     \<exists>c' w'. count_loop e N c w = Returned () (c', w')
        \<and> entryIndex c' = take N (entryIndex c) \<and> shrinks e (c, w) (c', w')"
proof (induction e N c w rule: count_loop.induct)
  case (1 e N c w)
  show ?case
  proof (cases "length (entryIndex c) > N")
    case False
    then show ?thesis
      by (auto simp: count_loop.simps [of e N c w] shrinks_refl)
  next
    case True
    then have ne: "entryIndex c \<noteq> []" by auto
    then have lt: "last_position c < length (entryIndex c)"
      by (simp add: last_position_lt)
    define p where "p = entry_path e c (entryIndex c ! last_position c)"
    have ep: "entryPathFor e (last_position c) c w = Returned p (c, w)"
      using lt by (simp add: entryPathFor_def p_def)
    define w2 where "w2 = w\<lparr>files := remove_all p (files w)\<rparr>"
    have step: "count_loop e N c w = count_loop e N (pop_back c) w2"
      using True ep by (simp add: count_loop.simps [of e N c w] w2_def)
    have "length (entryIndex (pop_back c)) \<le> 2 ^ 64"
      using "1.prems" by (rule length_pop_back)
    with "1.IH" [OF True ep refl]
    obtain c' w' where r: "count_loop e N (pop_back c) w2 = Returned () (c', w')"
      and idx: "entryIndex c' = take N (entryIndex (pop_back c))"
      and sh: "shrinks e (pop_back c, w2) (c', w')"
      by (auto simp: w2_def)
    have "take N (butlast (entryIndex c)) = take N (entryIndex c)"
    proof -
      have "N \<le> length (entryIndex c) - 1" using True by arith
      then show ?thesis by (simp add: butlast_conv_take min_def)
    qed
    with idx have "entryIndex c' = take N (entryIndex c)"
      by (simp add: pop_back_def)
    moreover have "shrinks e (c, w) (pop_back c, w2)"
      unfolding w2_def p_def using ne "1.prems" by (rule shrinks_pop)
    then have "shrinks e (c, w) (c', w')" using sh by (rule shrinks_trans)
    ultimately show ?thesis using step r by auto
  qed
qed

subsection \<open>Retention: sizes\<close>

lemma total_remove_all:
  "prefix r p \<Longrightarrow>
     totalDirectorySize (remove_all p fs) r + totalDirectorySize fs p = totalDirectorySize fs r"
proof (induction fs)
  case Nil
  then show ?case by (simp add: totalDirectorySize_def remove_all_def)
next
  case (Cons a fs)
  obtain q n where a: "a = (q, n)" by (cases a)
  have "prefix p q \<Longrightarrow> prefix r q"
    using Cons.prems by (rule prefix_order.trans)
  with Cons a show ?case
    by (auto simp: totalDirectorySize_def remove_all_def)
qed

lemma total_subseq:
  "subseq fs' fs \<Longrightarrow> totalDirectorySize fs' r \<le> totalDirectorySize fs r"
proof (induction rule: list_emb.induct)
  case (list_emb_Nil ys)
  then show ?case by (simp add: totalDirectorySize_def)
next
  case (list_emb_Cons xs ys y)
  then show ?case by (simp add: totalDirectorySize_def split: prod.splits)
next
  case (list_emb_Cons2 x y xs ys)
  then show ?case by (simp add: totalDirectorySize_def split: prod.splits)
qed

lemma wrap_minus:
  fixes a b m :: nat
  assumes "b \<le> a" and "a < m"
  shows "(a + m - b mod m) mod m = a - b"
proof -
  have e: "a + m - b mod m = (a - b) + m" using assms by simp
  have "((a - b) + m) mod m = (a - b) mod m" by (rule mod_add_self2)
  also have "\<dots> = a - b" using assms by (intro mod_less) arith
  finally show ?thesis unfolding e .
qed

lemma size_t_minus_eq:
  "b \<le> a \<Longrightarrow> a < 2 ^ 64 \<Longrightarrow> size_t_minus a b = a - b"
  unfolding size_t_minus_def by (rule wrap_minus)

lemma root_pop_back: "root (pop_back c) = root c"
  by (simp add: pop_back_def)

lemma size_loop_total:
  "size_loop e B t c w = Returned u (c', w') \<Longrightarrow>
   t = totalDirectorySize (files w) (root c) \<Longrightarrow> t < 2 ^ 64 \<Longrightarrow>
   totalDirectorySize (files w') (root c) \<le> B"
proof (induction e B t c w rule: size_loop.induct)
  case (1 e B t c w)
  show ?case
  proof (cases "t > B")
    case False
    then have "size_loop e B t c w = Returned () (c, w)"
      by (simp add: size_loop.simps [of e B t c w])
    with "1.prems"(1) have "w' = w" by simp
    with False "1.prems"(2) show ?thesis by simp
  next
    case True
    show ?thesis
    proof (cases "entryIndex c = []")
      case Nil: True
      then have "entryPathFor e (last_position c) c w
          = Exited EXIT_FAILURE (c, no_such_entry (last_position c) w)"
        by (simp add: entryPathFor_def)
      with True have "size_loop e B t c w
          = Exited EXIT_FAILURE (c, no_such_entry (last_position c) w)"
        by (simp add: size_loop.simps [of e B t c w])
      with "1.prems"(1) show ?thesis by simp
    next
      case False
      then have lt: "last_position c < length (entryIndex c)"
        by (simp add: last_position_lt)
      define p where "p = entry_path e c (entryIndex c ! last_position c)"
      have ep: "entryPathFor e (last_position c) c w = Returned p (c, w)"
        using lt by (simp add: entryPathFor_def p_def)
      define w2 where "w2 = w\<lparr>files := remove_all p (files w)\<rparr>"
      define t2 where "t2 = size_t_minus t (totalDirectorySize (files w) p)"
      have step: "size_loop e B t c w = size_loop e B t2 (pop_back c) w2"
        using True ep by (simp add: size_loop.simps [of e B t c w] Let_def w2_def t2_def)
      have pre: "prefix (root c) p"
        by (simp add: p_def entry_path_def)
      have sum: "totalDirectorySize (files w2) (root c) + totalDirectorySize (files w) p = t"
        using total_remove_all [OF pre] "1.prems"(2) by (simp add: w2_def)
      have "totalDirectorySize (files w) p \<le> t" using sum by simp
      then have "t2 = t - totalDirectorySize (files w) p"
        unfolding t2_def using "1.prems"(3) by (rule size_t_minus_eq)
      with sum have t2: "t2 = totalDirectorySize (files w2) (root (pop_back c))"
        by (simp add: root_pop_back)
      have "t2 \<le> t" using sum t2 by (simp add: root_pop_back)
      then have "t2 < 2 ^ 64" using "1.prems"(3) by (rule le_less_trans)
      moreover have "size_loop e B t2 (pop_back c) w2 = Returned u (c', w')"
        using "1.prems"(1) step by simp
      ultimately have "totalDirectorySize (files w') (root (pop_back c)) \<le> B"
        using "1.IH" [OF True ep refl refl refl refl, folded w2_def t2_def] t2 by blast
      then show ?thesis by (simp add: root_pop_back)
    qed
  qed
qed

lemma shrinks_length:
  "shrinks e (c, w) (c', w') \<Longrightarrow> length (entryIndex c) \<le> n \<Longrightarrow> length (entryIndex c') \<le> n"
  by (auto simp: shrinks_def)

lemma size_pass_ended:
  "length (entryIndex c) \<le> 2 ^ 64 \<Longrightarrow>
     \<exists>s'. ended (size_pass e b c w) s' \<and> shrinks e (c, w) s'"
  using size_loop_ended [of c e "maximumBytes b" _ w]
  by (auto simp: size_pass_def ended_def shrinks_refl)

lemma age_pass_ended:
  "length (entryIndex c) \<le> 2 ^ 64 \<Longrightarrow>
     \<exists>s'. ended (age_pass e b c w) s' \<and> shrinks e (c, w) s'"
  using age_loop_ended [of c e "maximumSeconds b" w]
  by (auto simp: age_pass_def ended_def shrinks_refl)

lemma count_pass_Returned:
  "length (entryIndex c) \<le> 2 ^ 64 \<Longrightarrow>
     \<exists>c' w'. count_pass e b c w = Returned () (c', w')
       \<and> entryIndex c' = (if 0 < maximumEntries b
            then take (maximumEntries b) (entryIndex c) else entryIndex c)
       \<and> shrinks e (c, w) (c', w')"
  using count_loop_Returned [of c e "maximumEntries b" w]
  by (auto simp: count_pass_def shrinks_refl)

lemma size_pass_total:
  assumes "size_pass e b c w = Returned u (c', w')" and "0 < maximumBytes b"
    and "totalDirectorySize (files w) (root c) < 2 ^ 64"
  shows "totalDirectorySize (files w') (root c) \<le> maximumBytes b"
proof -
  have m: "totalDirectorySize (files w) (root c) mod 2 ^ 64 = totalDirectorySize (files w) (root c)"
    using assms(3) by (rule mod_less)
  have "size_pass e b c w
      = size_loop e (maximumBytes b) (totalDirectorySize (files w) (root c)) c w"
    unfolding size_pass_def m using assms(2) by simp
  with assms(1) have "size_loop e (maximumBytes b) (totalDirectorySize (files w) (root c)) c w
      = Returned u (c', w')"
    by simp
  then show ?thesis using refl assms(3) by (rule size_loop_total)
qed

text \<open>The three passes one after the other.\<close>

lemma trim_passes_Returned:
  "trim_passes e b c w = Returned u s' \<Longrightarrow>
     \<exists>c1 w1 c2 w2. size_pass e b c w = Returned () (c1, w1)
       \<and> age_pass e b c1 w1 = Returned () (c2, w2)
       \<and> count_pass e b c2 w2 = Returned u s'"
  by (auto simp: trim_passes_def split: outcome.splits)

lemma trim_passes_ended:
  assumes len: "length (entryIndex c) \<le> 2 ^ 64"
  shows "\<exists>s'. ended (trim_passes e b c w) s' \<and> shrinks e (c, w) s'"
proof -
  obtain s1 where s1: "ended (size_pass e b c w) s1" "shrinks e (c, w) s1"
    using size_pass_ended [OF len] by blast
  obtain c1 w1 where e1: "s1 = (c1, w1)" by (cases s1)
  have len1: "length (entryIndex c1) \<le> 2 ^ 64"
    using s1(2) len unfolding e1 by (rule shrinks_length)
  show ?thesis
  proof (cases "size_pass e b c w = Returned () s1")
    case False
    with s1 show ?thesis by (auto simp: trim_passes_def ended_def)
  next
    case r1: True
    obtain s2 where s2: "ended (age_pass e b c1 w1) s2" "shrinks e (c1, w1) s2"
      using age_pass_ended [OF len1] by blast
    obtain c2 w2 where e2: "s2 = (c2, w2)" by (cases s2)
    have len2: "length (entryIndex c2) \<le> 2 ^ 64"
      using s2(2) len1 unfolding e2 by (rule shrinks_length)
    have sh2: "shrinks e (c, w) s2"
      using s1(2) s2(2) unfolding e1 by (rule shrinks_trans)
    show ?thesis
    proof (cases "age_pass e b c1 w1 = Returned () s2")
      case False
      with s2 r1 have "ended (trim_passes e b c w) s2"
        by (auto simp: trim_passes_def ended_def e1)
      with sh2 show ?thesis by blast
    next
      case r2: True
      obtain c3 w3 where r3: "count_pass e b c2 w2 = Returned () (c3, w3)"
        and sh3: "shrinks e (c2, w2) (c3, w3)"
        using count_pass_Returned [OF len2] by blast
      have "shrinks e (c, w) (c3, w3)"
        using sh2 sh3 unfolding e2 by (rule shrinks_trans)
      moreover have "ended (trim_passes e b c w) (c3, w3)"
        using r1 r2 r3 by (simp add: trim_passes_def ended_def e1 e2)
      ultimately show ?thesis by blast
    qed
  qed
qed

lemma trim_passes_total:
  assumes r: "trim_passes e b c w = Returned u (c', w')" and "0 < maximumBytes b"
    and "totalDirectorySize (files w) (root c) < 2 ^ 64"
    and len: "length (entryIndex c) \<le> 2 ^ 64"
  shows "totalDirectorySize (files w') (root c) \<le> maximumBytes b"
proof -
  from trim_passes_Returned [OF r] obtain c1 w1 c2 w2 where
    p1: "size_pass e b c w = Returned () (c1, w1)" and
    p2: "age_pass e b c1 w1 = Returned () (c2, w2)" and
    p3: "count_pass e b c2 w2 = Returned u (c', w')"
    by blast
  have t1: "totalDirectorySize (files w1) (root c) \<le> maximumBytes b"
    using p1 assms(2,3) by (rule size_pass_total)
  have sh1: "shrinks e (c, w) (c1, w1)"
    using size_pass_ended [OF len, of e b w] p1 by (auto simp: ended_def)
  then have len1: "length (entryIndex c1) \<le> 2 ^ 64" using len by (rule shrinks_length)
  have sh2: "shrinks e (c1, w1) (c2, w2)"
    using age_pass_ended [OF len1, of e b w1] p2 by (auto simp: ended_def)
  then have len2: "length (entryIndex c2) \<le> 2 ^ 64" using len1 by (rule shrinks_length)
  have s2: "subseq (files w2) (files w1)" using sh2 by (rule shrinksD)
  have s3: "subseq (files w') (files w2)"
    using count_pass_Returned [OF len2, of e b w2] p3 by (auto dest: shrinksD(3))
  have "totalDirectorySize (files w') (root c) \<le> totalDirectorySize (files w2) (root c)"
    using s3 by (rule total_subseq)
  also have "\<dots> \<le> totalDirectorySize (files w1) (root c)"
    using s2 by (rule total_subseq)
  finally show ?thesis using t1 by simp
qed

lemma trim_passes_length:
  assumes r: "trim_passes e b c w = Returned u (c', w')" and "0 < maximumEntries b"
    and len: "length (entryIndex c) \<le> 2 ^ 64"
  shows "length (entryIndex c') \<le> maximumEntries b"
proof -
  from trim_passes_Returned [OF r] obtain c1 w1 c2 w2 where
    p1: "size_pass e b c w = Returned () (c1, w1)" and
    p2: "age_pass e b c1 w1 = Returned () (c2, w2)" and
    p3: "count_pass e b c2 w2 = Returned u (c', w')"
    by blast
  have sh1: "shrinks e (c, w) (c1, w1)"
    using size_pass_ended [OF len, of e b w] p1 by (auto simp: ended_def)
  then have len1: "length (entryIndex c1) \<le> 2 ^ 64" using len by (rule shrinks_length)
  have sh2: "shrinks e (c1, w1) (c2, w2)"
    using age_pass_ended [OF len1, of e b w1] p2 by (auto simp: ended_def)
  then have len2: "length (entryIndex c2) \<le> 2 ^ 64" using len1 by (rule shrinks_length)
  from count_pass_Returned [OF len2, of e b w2] p3 assms(2)
  have "entryIndex c' = take (maximumEntries b) (entryIndex c2)" by auto
  then show ?thesis by simp
qed

lemma trim_passes_count_only:
  assumes "maximumBytes b = 0" and "maximumSeconds b = 0" and "0 < maximumEntries b"
    and len: "length (entryIndex c) \<le> 2 ^ 64"
  shows "\<exists>c' w'. trim_passes e b c w = Returned () (c', w')
      \<and> entryIndex c' = take (maximumEntries b) (entryIndex c)"
  using count_pass_Returned [OF len, of e b w] assms(1-3)
  by (auto simp: trim_passes_def size_pass_def age_pass_def)

subsection \<open>Retention: the budgets\<close>

lemma take_eq_drop_eq: "take k xs = take n xs \<Longrightarrow> drop k xs = drop n xs"
proof -
  assume a: "take k xs = take n xs"
  then have "length (take k xs) = length (take n xs)" by simp
  then have "min k (length xs) = min n (length xs)" by simp
  then consider "k = n" | "length xs \<le> k" "length xs \<le> n"
    by (auto simp: min_def split: if_splits)
  then show ?thesis by cases simp_all
qed

lemma ended_cases:
  assumes "ended r (c', w')"
  obtains "r = Returned () (c', w')" | "r = Exited EXIT_FAILURE (c', w')" "entryIndex c' = []"
  using assms by (auto simp: ended_def)

text \<open>
  C1 (as amended). With a size budget \<open>B > 0\<close>, when the trim returns the recursive
  size of the clipboard directory is at most \<open>B\<close>, the index is a front part of the
  old one (possibly empty: nothing keeps the last element) and the directories of the
  dropped elements are gone. The call always ends: the one other outcome the code has
  is the exit of the process with \<open>EXIT_FAILURE\<close>, taken on an index that has become
  empty. The size of the clipboard directory is taken to fit \<open>size_t\<close> and the index to
  have at most \<open>2 ^ 64\<close> elements.
\<close>

theorem trim_size_budget:
  assumes "maximumHistorySize e \<noteq> []"
    and "parse_settings e \<lparr>maximumBytes = 0, maximumSeconds = 0, maximumEntries = 0\<rparr>
           (regexSplit e (maximumHistorySize e)) = b"
    and "0 < maximumBytes b"
    and "totalDirectorySize (files w) (root c) < 2 ^ 64"
    and "length (entryIndex c) \<le> 2 ^ 64"
  shows "(\<exists>c' w' k. trimHistoryEntries e c w = Returned () (c', w')
            \<and> totalDirectorySize (files w') (root c') \<le> maximumBytes b
            \<and> entryIndex c' = take k (entryIndex c)
            \<and> dirs_gone e c (drop k (entryIndex c)) (files w'))
       \<or> (\<exists>c' w'. trimHistoryEntries e c w = Exited EXIT_FAILURE (c', w')
            \<and> entryIndex c' = [])"
proof -
  have t: "trimHistoryEntries e c w = trim_passes e b c w"
    using assms(1,2) by (simp add: trimHistoryEntries_def)
  obtain c' w' where en: "ended (trim_passes e b c w) (c', w')"
    and sh: "shrinks e (c, w) (c', w')"
    using trim_passes_ended [OF assms(5), of e b w] by auto
  from en show ?thesis
  proof (cases rule: ended_cases)
    case 1
    then have "totalDirectorySize (files w') (root c) \<le> maximumBytes b"
      using assms(3,4,5) by (rule trim_passes_total)
    moreover have "root c' = root c" using sh by (rule shrinksD)
    moreover obtain k where "entryIndex c' = take k (entryIndex c)"
      "dirs_gone e c (drop k (entryIndex c)) (files w')"
      using shrinksD(2) [OF sh] by blast
    ultimately show ?thesis using 1 t by auto
  next
    case 2
    then show ?thesis using t by auto
  qed
qed

lemma demo_parse_10b:
  "parse_settings (demo_retention ''10b'') \<lparr>maximumBytes = 0, maximumSeconds = 0, maximumEntries = 0\<rparr>
     (regexSplit (demo_retention ''10b'') (maximumHistorySize (demo_retention ''10b'')))
   = \<lparr>maximumBytes = 10, maximumSeconds = 0, maximumEntries = 0\<rparr>"
  by (simp add: demo_retention_def demo_env_def parse_eval)

lemma demo_files_total: "totalDirectorySize demo_files [''tmp'', ''clip''] = 14"
  by (simp add: demo_files_def totalDirectorySize_def node_size_def)

lemma demo_trim_10b:
  "trimHistoryEntries (demo_retention ''10b'') (demo_clipboard [1, 0]) (demo_world demo_files)
   = Returned () ((demo_clipboard [1, 0])\<lparr>entryIndex := [1]\<rparr>,
       demo_world demo_files_newest)"
proof -
  have "trimHistoryEntries (demo_retention ''10b'') (demo_clipboard [1, 0]) (demo_world demo_files)
     = trim_passes (demo_retention ''10b'')
         \<lparr>maximumBytes = 10, maximumSeconds = 0, maximumEntries = 0\<rparr>
         (demo_clipboard [1, 0]) (demo_world demo_files)"
    using demo_parse_10b by (simp add: trimHistoryEntries_def demo_retention_def)
  also have "\<dots> = Returned () ((demo_clipboard [1, 0])\<lparr>entryIndex := [1]\<rparr>,
       demo_world demo_files_newest)"
    by (simp add: trim_passes_def size_pass_def age_pass_def count_pass_def
        size_loop_step size_loop_stop size_loop_exit
        fs_eval demo_retention_def demo_env_def demo_world_def demo_clipboard_def demo_files_def
        demo_files_newest_def)
  finally show ?thesis .
qed

theorem trim_size_budget_witness:
  "maximumHistorySize (demo_retention ''10b'') \<noteq> []
   \<and> parse_settings (demo_retention ''10b'') \<lparr>maximumBytes = 0, maximumSeconds = 0, maximumEntries = 0\<rparr>
         (regexSplit (demo_retention ''10b'') (maximumHistorySize (demo_retention ''10b'')))
       = \<lparr>maximumBytes = 10, maximumSeconds = 0, maximumEntries = 0\<rparr>
   \<and> totalDirectorySize (files (demo_world demo_files)) (root (demo_clipboard [1, 0])) = 14
   \<and> ((\<exists>c' w' k. trimHistoryEntries (demo_retention ''10b'') (demo_clipboard [1, 0]) (demo_world demo_files)
              = Returned () (c', w')
            \<and> totalDirectorySize (files w') (root c') \<le> 10
            \<and> entryIndex c' = take k [1, 0]
            \<and> dirs_gone (demo_retention ''10b'') (demo_clipboard [1, 0]) (drop k [1, 0]) (files w'))
       \<or> (\<exists>c' w'. trimHistoryEntries (demo_retention ''10b'') (demo_clipboard [1, 0]) (demo_world demo_files)
              = Exited EXIT_FAILURE (c', w')
            \<and> entryIndex c' = []))
   \<and> trimHistoryEntries (demo_retention ''10b'') (demo_clipboard [1, 0]) (demo_world demo_files)
       = Returned () ((demo_clipboard [1, 0])\<lparr>entryIndex := [1]\<rparr>, demo_world demo_files_newest)
   \<and> totalDirectorySize demo_files_newest [''tmp'', ''clip''] = 9"
proof -
  have h1: "maximumHistorySize (demo_retention ''10b'') \<noteq> []"
    by (simp add: demo_retention_def)
  have h2: "parse_settings (demo_retention ''10b'') \<lparr>maximumBytes = 0, maximumSeconds = 0, maximumEntries = 0\<rparr>
         (regexSplit (demo_retention ''10b'') (maximumHistorySize (demo_retention ''10b'')))
       = \<lparr>maximumBytes = 10, maximumSeconds = 0, maximumEntries = 0\<rparr>"
    using demo_parse_10b by (simp add: demo_retention_def)
  have h3: "0 < maximumBytes \<lparr>maximumBytes = 10, maximumSeconds = 0, maximumEntries = 0\<rparr>"
    by simp
  have t: "totalDirectorySize (files (demo_world demo_files)) (root (demo_clipboard [1, 0])) = 14"
    using demo_files_total by (simp add: demo_world_def demo_clipboard_def)
  then have h4: "totalDirectorySize (files (demo_world demo_files))
      (root (demo_clipboard [1, 0])) < 2 ^ 64"
    by simp
  have h5: "length (entryIndex (demo_clipboard [1, 0])) \<le> 2 ^ 64"
    by (simp add: demo_clipboard_def)
  have idx: "entryIndex (demo_clipboard [1, 0]) = [1, 0]"
    by (simp add: demo_clipboard_def)
  have n: "totalDirectorySize demo_files_newest [''tmp'', ''clip''] = 9"
    by (simp add: demo_files_newest_def totalDirectorySize_def node_size_def)
  from trim_size_budget [OF h1 h2 h3 h4 h5] h1 h2 t demo_trim_10b n show ?thesis
    unfolding idx by simp
qed

lemma demo_parse_2b:
  "parse_settings (demo_retention ''2b'') \<lparr>maximumBytes = 0, maximumSeconds = 0, maximumEntries = 0\<rparr>
     (regexSplit (demo_retention ''2b'') (maximumHistorySize (demo_retention ''2b'')))
   = \<lparr>maximumBytes = 2, maximumSeconds = 0, maximumEntries = 0\<rparr>"
  by (simp add: demo_retention_def demo_env_def parse_eval)

lemma demo_parse_4b:
  "parse_settings (demo_retention ''4b'') \<lparr>maximumBytes = 0, maximumSeconds = 0, maximumEntries = 0\<rparr>
     (regexSplit (demo_retention ''4b'') (maximumHistorySize (demo_retention ''4b'')))
   = \<lparr>maximumBytes = 4, maximumSeconds = 0, maximumEntries = 0\<rparr>"
  by (simp add: demo_retention_def demo_env_def parse_eval)

text \<open>
  The claim as stated fails. With the budget \<open>4b\<close> the trim removes both entries of
  the example, the last one included, and returns with an empty index. With the
  budget \<open>2b\<close> the version file alone is larger than the budget: both entries are
  removed, the size is still 3, and the process exits on the position
  \<open>2 ^ 64 - 1\<close> that \<open>entryIndex.size() - 1\<close> gives for the empty index.
\<close>

theorem size_budget_counterexample:
  "trimHistoryEntries (demo_retention ''4b'') (demo_clipboard [1, 0]) (demo_world demo_files)
     = Returned () ((demo_clipboard [1, 0])\<lparr>entryIndex := []\<rparr>, demo_world demo_files_left)
   \<and> trimHistoryEntries (demo_retention ''2b'') (demo_clipboard [1, 0]) (demo_world demo_files)
     = Exited 1 ((demo_clipboard [1, 0])\<lparr>entryIndex := []\<rparr>,
         \<lparr>files = demo_files_left, clipboard_state = Error, indicator_running = False,
          stderr = [History_entry_missing 18446744073709551615]\<rparr>)
   \<and> totalDirectorySize demo_files_left [''tmp'', ''clip''] = 3
   \<and> \<not> (totalDirectorySize demo_files_left [''tmp'', ''clip''] \<le> 2 \<or> length ([] :: ulong list) = 1)"
proof -
  have a: "trimHistoryEntries (demo_retention ''4b'') (demo_clipboard [1, 0]) (demo_world demo_files)
     = trim_passes (demo_retention ''4b'') \<lparr>maximumBytes = 4, maximumSeconds = 0, maximumEntries = 0\<rparr>
         (demo_clipboard [1, 0]) (demo_world demo_files)"
    using demo_parse_4b by (simp add: trimHistoryEntries_def demo_retention_def)
  have a': "trim_passes (demo_retention ''4b'') \<lparr>maximumBytes = 4, maximumSeconds = 0, maximumEntries = 0\<rparr>
         (demo_clipboard [1, 0]) (demo_world demo_files)
     = Returned () ((demo_clipboard [1, 0])\<lparr>entryIndex := []\<rparr>, demo_world demo_files_left)"
    by (simp add: trim_passes_def size_pass_def age_pass_def count_pass_def
        size_loop_step size_loop_stop size_loop_exit
        fs_eval demo_retention_def demo_env_def demo_world_def demo_clipboard_def demo_files_def demo_files_left_def)
  have b: "trimHistoryEntries (demo_retention ''2b'') (demo_clipboard [1, 0]) (demo_world demo_files)
     = trim_passes (demo_retention ''2b'') \<lparr>maximumBytes = 2, maximumSeconds = 0, maximumEntries = 0\<rparr>
         (demo_clipboard [1, 0]) (demo_world demo_files)"
    using demo_parse_2b by (simp add: trimHistoryEntries_def demo_retention_def)
  have b': "trim_passes (demo_retention ''2b'') \<lparr>maximumBytes = 2, maximumSeconds = 0, maximumEntries = 0\<rparr>
         (demo_clipboard [1, 0]) (demo_world demo_files)
     = Exited 1 ((demo_clipboard [1, 0])\<lparr>entryIndex := []\<rparr>,
         \<lparr>files = demo_files_left, clipboard_state = Error, indicator_running = False,
          stderr = [History_entry_missing 18446744073709551615]\<rparr>)"
    by (simp add: trim_passes_def size_pass_def size_loop_step size_loop_stop size_loop_exit
        fs_eval demo_retention_def demo_env_def demo_world_def demo_clipboard_def demo_files_def demo_files_left_def)
  have c: "totalDirectorySize demo_files_left [''tmp'', ''clip''] = 3"
    by (simp add: demo_files_left_def totalDirectorySize_def node_size_def)
  from a a' b b' c show ?thesis by simp
qed

text \<open>
  C7. With a count budget \<open>N > 0\<close> the index has at most \<open>N\<close> elements when the trim
  has returned; it is a front part of the old index, so the elements removed are
  those at its back, and their directories are gone. Where the count budget is the
  only one, the trim returns and the index is exactly the first \<open>N\<close> elements of the
  old one. A size or age budget can instead end the process on an emptied index.
\<close>

theorem trim_count_budget:
  assumes "maximumHistorySize e \<noteq> []"
    and "parse_settings e \<lparr>maximumBytes = 0, maximumSeconds = 0, maximumEntries = 0\<rparr>
           (regexSplit e (maximumHistorySize e)) = b"
    and "0 < maximumEntries b"
    and "length (entryIndex c) \<le> 2 ^ 64"
  shows "(\<exists>c' w'. trimHistoryEntries e c w = Returned () (c', w')
            \<and> length (entryIndex c') \<le> maximumEntries b
            \<and> (\<exists>k. entryIndex c' = take k (entryIndex c)
                  \<and> dirs_gone e c (drop k (entryIndex c)) (files w'))
            \<and> (maximumBytes b = 0 \<and> maximumSeconds b = 0 \<longrightarrow>
                  entryIndex c' = take (maximumEntries b) (entryIndex c)
                  \<and> dirs_gone e c (drop (maximumEntries b) (entryIndex c)) (files w')))
       \<or> (\<exists>c' w'. trimHistoryEntries e c w = Exited EXIT_FAILURE (c', w')
            \<and> entryIndex c' = [] \<and> (0 < maximumBytes b \<or> 0 < maximumSeconds b))"
proof -
  have t: "trimHistoryEntries e c w = trim_passes e b c w"
    using assms(1,2) by (simp add: trimHistoryEntries_def)
  obtain c' w' where en: "ended (trim_passes e b c w) (c', w')"
    and sh: "shrinks e (c, w) (c', w')"
    using trim_passes_ended [OF assms(4), of e b w] by auto
  obtain k where k: "entryIndex c' = take k (entryIndex c)"
    "dirs_gone e c (drop k (entryIndex c)) (files w')"
    using shrinksD(2) [OF sh] by blast
  from en show ?thesis
  proof (cases rule: ended_cases)
    case 1
    then have len: "length (entryIndex c') \<le> maximumEntries b"
      using assms(3,4) by (rule trim_passes_length)
    have only: "entryIndex c' = take (maximumEntries b) (entryIndex c)
        \<and> dirs_gone e c (drop (maximumEntries b) (entryIndex c)) (files w')"
      if "maximumBytes b = 0" "maximumSeconds b = 0"
    proof -
      from trim_passes_count_only [OF that assms(3,4), of e w] 1
      have eq: "entryIndex c' = take (maximumEntries b) (entryIndex c)" by auto
      with k(1) have "drop k (entryIndex c) = drop (maximumEntries b) (entryIndex c)"
        by (intro take_eq_drop_eq) simp
      with k(2) eq show ?thesis by simp
    qed
    then have only': "maximumBytes b = 0 \<and> maximumSeconds b = 0 \<longrightarrow>
        entryIndex c' = take (maximumEntries b) (entryIndex c)
        \<and> dirs_gone e c (drop (maximumEntries b) (entryIndex c)) (files w')"
      by blast
    have "\<exists>k. entryIndex c' = take k (entryIndex c)
        \<and> dirs_gone e c (drop k (entryIndex c)) (files w')"
      using k by blast
    with 1 len only' have "trim_passes e b c w = Returned () (c', w')
        \<and> length (entryIndex c') \<le> maximumEntries b
        \<and> (\<exists>k. entryIndex c' = take k (entryIndex c)
              \<and> dirs_gone e c (drop k (entryIndex c)) (files w'))
        \<and> (maximumBytes b = 0 \<and> maximumSeconds b = 0 \<longrightarrow>
              entryIndex c' = take (maximumEntries b) (entryIndex c)
              \<and> dirs_gone e c (drop (maximumEntries b) (entryIndex c)) (files w'))"
      by (intro conjI)
    then show ?thesis unfolding t by blast
  next
    case 2
    have "0 < maximumBytes b \<or> 0 < maximumSeconds b"
    proof (rule ccontr)
      assume "\<not> ?thesis"
      then have "maximumBytes b = 0" "maximumSeconds b = 0" by auto
      from trim_passes_count_only [OF this assms(3,4), of e w] 2(1) show False by auto
    qed
    with 2 have "trim_passes e b c w = Exited EXIT_FAILURE (c', w')
        \<and> entryIndex c' = [] \<and> (0 < maximumBytes b \<or> 0 < maximumSeconds b)"
      by simp
    then show ?thesis unfolding t by blast
  qed
qed

lemma demo_parse_1:
  "parse_settings (demo_retention ''1'') \<lparr>maximumBytes = 0, maximumSeconds = 0, maximumEntries = 0\<rparr>
     (regexSplit (demo_retention ''1'') (maximumHistorySize (demo_retention ''1'')))
   = \<lparr>maximumBytes = 0, maximumSeconds = 0, maximumEntries = 1\<rparr>"
  by (simp add: demo_retention_def demo_env_def parse_eval)

lemma demo_trim_1:
  "trimHistoryEntries (demo_retention ''1'') (demo_clipboard [1, 0]) (demo_world demo_files)
   = Returned () ((demo_clipboard [1, 0])\<lparr>entryIndex := [1]\<rparr>,
       demo_world demo_files_newest)"
proof -
  have "trimHistoryEntries (demo_retention ''1'') (demo_clipboard [1, 0]) (demo_world demo_files)
     = trim_passes (demo_retention ''1'')
         \<lparr>maximumBytes = 0, maximumSeconds = 0, maximumEntries = 1\<rparr>
         (demo_clipboard [1, 0]) (demo_world demo_files)"
    using demo_parse_1 by (simp add: trimHistoryEntries_def demo_retention_def)
  also have "\<dots> = Returned () ((demo_clipboard [1, 0])\<lparr>entryIndex := [1]\<rparr>,
       demo_world demo_files_newest)"
    by (simp add: trim_passes_def size_pass_def age_pass_def count_pass_def
        count_loop_step count_loop_stop
        fs_eval demo_retention_def demo_env_def demo_world_def demo_clipboard_def demo_files_def
        demo_files_newest_def)
  finally show ?thesis .
qed

theorem trim_count_budget_witness:
  "maximumHistorySize (demo_retention ''1'') \<noteq> []
   \<and> parse_settings (demo_retention ''1'') \<lparr>maximumBytes = 0, maximumSeconds = 0, maximumEntries = 0\<rparr>
         (regexSplit (demo_retention ''1'') (maximumHistorySize (demo_retention ''1'')))
       = \<lparr>maximumBytes = 0, maximumSeconds = 0, maximumEntries = 1\<rparr>
   \<and> (\<exists>c' w'. trimHistoryEntries (demo_retention ''1'') (demo_clipboard [1, 0]) (demo_world demo_files)
              = Returned () (c', w')
            \<and> length (entryIndex c') \<le> 1
            \<and> entryIndex c' = take 1 [1, 0]
            \<and> dirs_gone (demo_retention ''1'') (demo_clipboard [1, 0]) (drop 1 [1, 0]) (files w'))
   \<and> trimHistoryEntries (demo_retention ''1'') (demo_clipboard [1, 0]) (demo_world demo_files)
       = Returned () ((demo_clipboard [1, 0])\<lparr>entryIndex := [1]\<rparr>, demo_world demo_files_newest)"
proof -
  have h1: "maximumHistorySize (demo_retention ''1'') \<noteq> []"
    by (simp add: demo_retention_def)
  have h2: "parse_settings (demo_retention ''1'') \<lparr>maximumBytes = 0, maximumSeconds = 0, maximumEntries = 0\<rparr>
         (regexSplit (demo_retention ''1'') (maximumHistorySize (demo_retention ''1'')))
       = \<lparr>maximumBytes = 0, maximumSeconds = 0, maximumEntries = 1\<rparr>"
    using demo_parse_1 by (simp add: demo_retention_def)
  have h3: "0 < maximumEntries \<lparr>maximumBytes = 0, maximumSeconds = 0, maximumEntries = 1\<rparr>"
    by simp
  have h4: "length (entryIndex (demo_clipboard [1, 0])) \<le> 2 ^ 64"
    by (simp add: demo_clipboard_def)
  have idx: "entryIndex (demo_clipboard [1, 0]) = [1, 0]"
    by (simp add: demo_clipboard_def)
  from trim_count_budget [OF h1 h2 h3 h4, of "demo_world demo_files"] h1 h2 demo_trim_1 show ?thesis
    unfolding idx by auto
qed

subsection \<open>New entries\<close>

lemma makeNewEntry_Returned:
  assumes "entryIndex c \<noteq> []" and "this_entry c \<le> length (entryIndex c)"
  shows "\<exists>c' w'. makeNewEntry e c w = Returned () (c', w')
      \<and> entryIndex c' = (hd (entryIndex c) + 1) # entryIndex c
      \<and> this_entry c' = this_entry c"
  using assms by (simp add: makeNewEntry_def Let_def)

lemma new_ordinals_Suc: "new_ordinals F (Suc k) = new_ordinals (F + 1) k @ [F + 1]"
proof -
  have "map (\<lambda>i. F + word_of_nat (Suc i)) [0..<Suc k]
      = (F + 1) # map (\<lambda>i. F + 1 + word_of_nat (Suc i)) [0..<k]"
    by (simp add: upt_conv_Cons map_Suc_upt [symmetric] add.assoc add.commute del: upt_Suc)
  then show ?thesis unfolding new_ordinals_def by simp
qed

lemma makeNewEntries_Returned:
  "entryIndex c \<noteq> [] \<Longrightarrow> this_entry c \<le> length (entryIndex c) \<Longrightarrow>
     \<exists>c' w'. makeNewEntries e k c w = Returned () (c', w')
       \<and> entryIndex c' = new_ordinals (hd (entryIndex c)) k @ entryIndex c
       \<and> this_entry c' = this_entry c"
proof (induction k arbitrary: c w)
  case 0
  then show ?case by (simp add: new_ordinals_def)
next
  case (Suc k)
  from makeNewEntry_Returned [OF Suc.prems, of e w]
  obtain c1 w1 where r: "makeNewEntry e c w = Returned () (c1, w1)"
    and idx1: "entryIndex c1 = (hd (entryIndex c) + 1) # entryIndex c"
    and te: "this_entry c1 = this_entry c"
    by blast
  have "entryIndex c1 \<noteq> []" "this_entry c1 \<le> length (entryIndex c1)"
    using idx1 te Suc.prems by simp_all
  from Suc.IH [OF this, of w1] obtain c' w' where
    "makeNewEntries e k c1 w1 = Returned () (c', w')"
    "entryIndex c' = new_ordinals (hd (entryIndex c1)) k @ entryIndex c1"
    "this_entry c' = this_entry c1"
    by blast
  with r idx1 te show ?case
    by (simp add: new_ordinals_Suc)
qed

lemma hd_new_ordinals: "hd (new_ordinals F k @ F # xs) = F + word_of_nat k"
  by (cases k) (simp_all add: new_ordinals_def)


lemma unat_plus_of_nat:
  "unat (F :: ulong) + k < 2 ^ 64 \<Longrightarrow> unat (F + word_of_nat k) = unat F + k"
proof -
  assume a: "unat F + k < 2 ^ 64"
  then have "k < 2 ^ 64" by simp
  then have "unat (word_of_nat k :: ulong) = k" by (simp add: unat_of_nat)
  then have "unat (F + word_of_nat k) = (unat F + k) mod 2 ^ 64"
    by (simp add: unat_word_ariths)
  with a show ?thesis by simp
qed

text \<open>
  C9. On a clipboard whose index is not empty and whose current position is one of
  the index, \<open>k\<close> successive calls of \<open>makeNewEntry\<close> all return; afterwards the front
  of the index is \<open>F + k\<close>, computed in \<open>unsigned long\<close> as the code computes it (and
  so the number \<open>F + k\<close> itself as long as that is below \<open>2 ^ 64\<close>), the index is the
  old index with the \<open>k\<close> new ordinals \<open>F + k\<close>, ..., \<open>F + 1\<close> put before it, and no old
  element is removed or changed.
\<close>

theorem makeNewEntry_k_times:
  assumes "entryIndex c \<noteq> []" and "this_entry c \<le> length (entryIndex c)"
  shows "\<exists>c' w'. makeNewEntries e k c w = Returned () (c', w')
     \<and> hd (entryIndex c') = hd (entryIndex c) + word_of_nat k
     \<and> entryIndex c' = new_ordinals (hd (entryIndex c)) k @ entryIndex c
     \<and> length (entryIndex c') = length (entryIndex c) + k
     \<and> (unat (hd (entryIndex c)) + k < 2 ^ 64 \<longrightarrow>
           unat (hd (entryIndex c')) = unat (hd (entryIndex c)) + k)"
proof -
  from makeNewEntries_Returned [OF assms, of e k w] obtain c' w' where
    r: "makeNewEntries e k c w = Returned () (c', w')" and
    idx: "entryIndex c' = new_ordinals (hd (entryIndex c)) k @ entryIndex c"
    by blast
  obtain F xs where c: "entryIndex c = F # xs"
    using assms(1) by (cases "entryIndex c") auto
  have front: "hd (entryIndex c') = hd (entryIndex c) + word_of_nat k"
    unfolding idx c by (simp add: hd_new_ordinals)
  have len: "length (entryIndex c') = length (entryIndex c) + k"
    unfolding idx by (simp add: new_ordinals_def)
  have "unat (hd (entryIndex c)) + k < 2 ^ 64 \<longrightarrow>
      unat (hd (entryIndex c')) = unat (hd (entryIndex c)) + k"
    unfolding front by (rule impI) (rule unat_plus_of_nat)
  with r idx front len show ?thesis by blast
qed

theorem makeNewEntry_k_times_witness:
  "entryIndex (demo_clipboard [1, 0]) \<noteq> []
   \<and> this_entry (demo_clipboard [1, 0]) \<le> length (entryIndex (demo_clipboard [1, 0]))
   \<and> (\<exists>c' w'. makeNewEntries demo_env 2 (demo_clipboard [1, 0]) (demo_world demo_files)
          = Returned () (c', w')
        \<and> hd (entryIndex c') = 3 \<and> entryIndex c' = [3, 2, 1, 0] \<and> unat (hd (entryIndex c')) = 3)"
proof -
  have h1: "entryIndex (demo_clipboard [1, 0]) \<noteq> []"
    by (simp add: demo_clipboard_def)
  have h2: "this_entry (demo_clipboard [1, 0]) \<le> length (entryIndex (demo_clipboard [1, 0]))"
    by (simp add: demo_clipboard_def)
  have idx: "entryIndex (demo_clipboard [1, 0]) = [1, 0]"
    by (simp add: demo_clipboard_def)
  have new: "new_ordinals 1 2 = [3, 2]"
    by (simp add: new_ordinals_def upt_conv_Cons)
  from makeNewEntry_k_times [OF h1 h2, of demo_env 2 "demo_world demo_files"] h1 h2
  show ?thesis unfolding idx by (auto simp: new)
qed

subsection \<open>Choosing an entry that is not there\<close>

lemma Clipboard_out_of_range:
  assumes "generatedEntryIndex e
      ((if isPersistent e clipboard_name then global_path_persistent e
        else global_path_temporary e) @ [clipboard_name]) w = (idx, w1)"
    and "\<not> k < length idx"
  shows "\<exists>c. Clipboard e clipboard_name k w = Exited EXIT_FAILURE (c, no_such_entry k w1)"
  using assms by (simp add: Clipboard_def Let_def)

text \<open>
  C3. For a position past the end of the index, \<open>setEntry\<close> lets the
  \<open>std::out_of_range\<close> of \<open>entryIndex.at\<close> escape, after it has overwritten
  \<open>this_entry\<close>: the indicator keeps running, nothing is printed and the process does
  not exit there. The sequence the claim describes is what \<open>entryPathFor\<close> (and the
  constructor) do for the same position.
\<close>

theorem setEntry_out_of_range:
  assumes "\<not> k < length (entryIndex c)"
  shows "setEntry e k c w = Thrown Out_of_range (c\<lparr>this_entry := k\<rparr>, w)
     \<and> entryPathFor e k c w =
         Exited EXIT_FAILURE
           (c, w\<lparr>clipboard_state := Error, indicator_running := False,
                  stderr := stderr w @ [History_entry_missing k]\<rparr>)"
  using assms by (simp add: setEntry_def entryPathFor_def no_such_entry_def)

theorem setEntry_out_of_range_witness:
  "\<not> 5 < length (entryIndex (demo_clipboard [0]))
   \<and> setEntry demo_env 5 (demo_clipboard [0]) (demo_world demo_files)
       = Thrown Out_of_range ((demo_clipboard [0])\<lparr>this_entry := 5\<rparr>, demo_world demo_files)
   \<and> entryPathFor demo_env 5 (demo_clipboard [0]) (demo_world demo_files)
       = Exited 1
           (demo_clipboard [0],
            \<lparr>files = demo_files, clipboard_state = Error, indicator_running = False,
             stderr = [History_entry_missing 5]\<rparr>)"
proof -
  have h: "\<not> 5 < length (entryIndex (demo_clipboard [0]))"
    by (simp add: demo_clipboard_def)
  from setEntry_out_of_range [OF h, of demo_env "demo_world demo_files"] h
  show ?thesis by (simp add: demo_world_def EXIT_FAILURE_def)
qed

subsection \<open>Taking the lock\<close>

lemma wait_for_lock_ends:
  "kill0 e n pid = - 1 \<or> \<not> lock_present e n \<Longrightarrow> i \<le> n \<Longrightarrow>
     \<exists>j. wait_for_lock e pid i = Some j"
proof (induction "n - i" arbitrary: i)
  case 0
  then have "i = n" by simp
  with "0.prems"(1) show ?case
    by (subst wait_for_lock.simps) auto
next
  case (Suc d)
  show ?case
  proof (cases "kill0 e i pid = - 1 \<or> \<not> lock_present e i")
    case True
    then show ?thesis by (subst wait_for_lock.simps) auto
  next
    case False
    then have "wait_for_lock e pid i = wait_for_lock e pid (i + 1)"
      by (subst wait_for_lock.simps) auto
    moreover have "d = n - (i + 1)" "i + 1 \<le> n" using Suc.hyps(2) by auto
    ultimately show ?thesis using Suc.hyps(1) Suc.prems(1) by metis
  qed
qed

lemma isLocked_content:
  "fileContents (files w) (metadata_lock c) = Some content \<Longrightarrow>
     isLocked c w \<longleftrightarrow> content \<noteq> []"
  by (auto simp: isLocked_def fileContents_def fs_exists_def fs_is_empty_def
      split: option.splits node.splits)

lemma fileContents_writeToFile: "fileContents (writeToFile p content fs) p = Some content"
proof (cases "fs_exists fs p")
  case True
  have "map_of (map (\<lambda>(q, n). if q = p then (q, Regular content) else (q, n)) fs) p
      = (case map_of fs p of None \<Rightarrow> None | Some n \<Rightarrow> Some (Regular content))"
    by (induction fs) auto
  with True show ?thesis
    by (auto simp: fileContents_def writeToFile_def fs_exists_def)
next
  case False
  then have "map_of fs p = None" by (simp add: fs_exists_def)
  with False show ?thesis
    by (simp add: fileContents_def writeToFile_def map_add_def)
qed

text \<open>
  C4 (as amended). The lock file exists and is not empty. When \<open>std::stoi\<close> reads a
  PID from its content (white space, a sign, then digits; what follows the digits is
  ignored, so \<open>12abc\<close> is the PID 12), the holder is not in the caller's process
  group, and at some round the holder is found dead or the lock file is gone, then
  \<open>getLock\<close> returns and the lock file holds the PID of the current process. When
  \<open>std::stoi\<close> throws (no digit where a number must start, or a value outside
  \<open>int\<close>), \<open>getLock\<close> ends with that exception and the lock file is as it was.
\<close>

theorem getLock_lock_content:
  assumes "fileContents (files w) (metadata_lock c) = Some content" and "content \<noteq> []"
  shows "(\<forall>pid n. stoi content = Inr pid \<and> getpgrp e \<noteq> getpgid e pid
            \<and> (kill0 e n pid = - 1 \<or> \<not> lock_present e n) \<longrightarrow>
          (\<exists>w'. getLock e c w = Some (Returned () (c, w'))
             \<and> fileContents (files w') (metadata_lock c) = Some (to_string (thisPID e))))
     \<and> (\<forall>x. stoi content = Inl x \<longrightarrow> getLock e c w = Some (Thrown x (c, w)))"
proof -
  have locked: "isLocked c w" using assms by (simp add: isLocked_content)
  have "\<exists>w'. getLock e c w = Some (Returned () (c, w'))
        \<and> fileContents (files w') (metadata_lock c) = Some (to_string (thisPID e))"
    if "stoi content = Inr pid" "getpgrp e \<noteq> getpgid e pid"
      "kill0 e n pid = - 1 \<or> \<not> lock_present e n" for pid n
  proof -
    from wait_for_lock_ends [OF that(3), of 0] obtain j where
      "wait_for_lock e pid 0 = Some j" by auto
    with locked assms(1) that(1,2) show ?thesis
      by (simp add: getLock_def Let_def fileContents_writeToFile)
  qed
  moreover have "getLock e c w = Some (Thrown x (c, w))" if "stoi content = Inl x" for x
    using locked assms(1) that by (simp add: getLock_def Let_def)
  ultimately show ?thesis by blast
qed

theorem getLock_lock_content_witness:
  "fileContents (files (demo_world [([''tmp'', ''clip'', ''metadata'', ''lock''], Regular ''12abc'')]))
       (metadata_lock (demo_clipboard [0])) = Some ''12abc''
   \<and> stoi ''12abc'' = Inr 12 \<and> getpgrp demo_env \<noteq> getpgid demo_env 12
   \<and> kill0 demo_env 0 12 = - 1
   \<and> (\<exists>w'. getLock demo_env (demo_clipboard [0])
            (demo_world [([''tmp'', ''clip'', ''metadata'', ''lock''], Regular ''12abc'')])
          = Some (Returned () (demo_clipboard [0], w'))
        \<and> fileContents (files w') (metadata_lock (demo_clipboard [0])) = Some ''4242'')"
proof -
  have h1: "fileContents (files (demo_world [([''tmp'', ''clip'', ''metadata'', ''lock''], Regular ''12abc'')]))
       (metadata_lock (demo_clipboard [0])) = Some ''12abc''"
    by (simp add: demo_eval)
  have h2: "''12abc'' \<noteq> []" by simp
  have s: "stoi ''12abc'' = Inr 12"
    by (simp add: stoi_def scan_integer_def isspace_def isdigit_def digits_val_def digit_val_def
        INT_MAX_def INT_MIN_def)
  have g: "getpgrp demo_env \<noteq> getpgid demo_env 12" "kill0 demo_env 0 12 = - 1"
    by (simp_all add: demo_env_def)
  have p: "to_string (thisPID demo_env) = ''4242''"
    by (simp add: demo_eval)
  from getLock_lock_content [OF h1 h2, of demo_env] s g have
    "\<exists>w'. getLock demo_env (demo_clipboard [0])
            (demo_world [([''tmp'', ''clip'', ''metadata'', ''lock''], Regular ''12abc'')])
          = Some (Returned () (demo_clipboard [0], w'))
        \<and> fileContents (files w') (metadata_lock (demo_clipboard [0])) = Some (to_string (thisPID demo_env))"
    by blast
  with h1 s g show ?thesis unfolding p by simp
qed

text \<open>
  The claim as stated fails: with the content \<open>abc\<close> in the lock file \<open>getLock\<close>
  ends with \<open>std::invalid_argument\<close>, and with \<open>99999999999\<close> with
  \<open>std::out_of_range\<close>; the lock file is not written.
\<close>

theorem getLock_malformed_counterexample:
  "getLock demo_env (demo_clipboard [0])
      (demo_world [([''tmp'', ''clip'', ''metadata'', ''lock''], Regular ''abc'')])
     = Some (Thrown Invalid_argument (demo_clipboard [0],
          demo_world [([''tmp'', ''clip'', ''metadata'', ''lock''], Regular ''abc'')]))
   \<and> getLock demo_env (demo_clipboard [0])
      (demo_world [([''tmp'', ''clip'', ''metadata'', ''lock''], Regular ''99999999999'')])
     = Some (Thrown Out_of_range (demo_clipboard [0],
          demo_world [([''tmp'', ''clip'', ''metadata'', ''lock''], Regular ''99999999999'')]))"
  by (simp add: getLock_def isLocked_def fs_exists_def fs_is_empty_def fileContents_def
      stoi_def scan_integer_def isspace_def isdigit_def digits_val_def digit_val_def
      INT_MAX_def INT_MIN_def demo_clipboard_def demo_world_def Let_def)

subsection \<open>The ignore rules\<close>

lemma holdsRaw_content:
  "fileContents (files w) (data_raw c) = Some content \<Longrightarrow>
     holdsRawDataInCurrentEntry c w \<longleftrightarrow> content \<noteq> []"
  by (auto simp: holdsRawDataInCurrentEntry_def fileContents_def fs_is_empty_def
      split: option.splits node.splits)

lemma secret_loop_eq:
  "secret_loop e raw content secrets fs =
     (if hex_digest (SHA512 e content) \<in> set secrets then writeToFile raw [] fs else fs)"
  by (induction secrets) auto

lemma ignore_regex_pass_idle:
  "\<not> holdsIgnoreRegexes c w \<Longrightarrow> ignore_regex_pass e c w = Returned () (c, w)"
  by (simp add: ignore_regex_pass_def)

text \<open>
  C5. The secrets are handled after the regexes; \<open>w1\<close> is the state the block of the
  regexes leaves (the state at the call when there is no \<open>ignore_regex\<close> file to
  apply). With a non-empty \<open>ignore_secret\<close> file: if the current entry holds raw data,
  the raw file is emptied when the lower-case hexadecimal SHA-512 digest of its
  content is one of the lines of the file, and nothing changes otherwise; if the
  entry holds no raw data, nothing changes.
\<close>

theorem applyIgnoreRules_secrets:
  assumes "ignore_regex_pass e c w = Returned () (c, w1)" and "holdsIgnoreSecrets c w1"
  shows "(\<forall>content. fileContents (files w1) (data_raw c) = Some content \<and> content \<noteq> [] \<longrightarrow>
            applyIgnoreRules e c w =
              Returned () (c,
                if hex_digest (SHA512 e content)
                     \<in> set (lines_of_file e (files w1) (metadata_ignore_secret c))
                then w1\<lparr>files := writeToFile (data_raw c) [] (files w1)\<rparr> else w1))
     \<and> (\<not> holdsRawDataInCurrentEntry c w1 \<longrightarrow> applyIgnoreRules e c w = Returned () (c, w1))"
proof -
  have a: "applyIgnoreRules e c w = ignore_secret_pass e c w1"
    using assms(1) by (simp add: applyIgnoreRules_def)
  have "ignore_secret_pass e c w1 =
          Returned () (c,
            if hex_digest (SHA512 e content)
                 \<in> set (lines_of_file e (files w1) (metadata_ignore_secret c))
            then w1\<lparr>files := writeToFile (data_raw c) [] (files w1)\<rparr> else w1)"
    if "fileContents (files w1) (data_raw c) = Some content" "content \<noteq> []" for content
    using that assms(2)
    by (simp add: ignore_secret_pass_def ignoreSecrets_def holdsRaw_content secret_loop_eq)
  moreover have "ignore_secret_pass e c w1 = Returned () (c, w1)"
    if "\<not> holdsRawDataInCurrentEntry c w1"
    using that by (simp add: ignore_secret_pass_def Let_def)
  ultimately show ?thesis unfolding a by blast
qed

lemma demo_digest_hello: "hex_digest (SHA512 demo_env ''hello'') = ''05ab''"
  by (simp add: demo_env_def hex_digest_def hex_byte_def)

theorem applyIgnoreRules_secrets_witness:
  "ignore_regex_pass demo_env (demo_clipboard [0])
       (demo_world (demo_raw_files ''hello'' @ demo_secret_file ''05ab''))
     = Returned () (demo_clipboard [0],
         demo_world (demo_raw_files ''hello'' @ demo_secret_file ''05ab''))
   \<and> holdsIgnoreSecrets (demo_clipboard [0])
         (demo_world (demo_raw_files ''hello'' @ demo_secret_file ''05ab''))
   \<and> fileContents (demo_raw_files ''hello'' @ demo_secret_file ''05ab'')
         (data_raw (demo_clipboard [0])) = Some ''hello''
   \<and> applyIgnoreRules demo_env (demo_clipboard [0])
         (demo_world (demo_raw_files ''hello'' @ demo_secret_file ''05ab''))
     = Returned () (demo_clipboard [0],
         demo_world (demo_raw_files [] @ demo_secret_file ''05ab''))"
proof -
  let ?c = "demo_clipboard [0]"
  let ?w = "demo_world (demo_raw_files ''hello'' @ demo_secret_file ''05ab'')"
  have idle: "\<not> holdsIgnoreRegexes ?c ?w"
    by (simp add: holdsIgnoreRegexes_def demo_eval)
  have h1: "ignore_regex_pass demo_env ?c ?w = Returned () (?c, ?w)"
    using idle by (rule ignore_regex_pass_idle)
  have h2: "holdsIgnoreSecrets ?c ?w"
    by (simp add: holdsIgnoreSecrets_def demo_eval)
  have h3: "fileContents (files ?w) (data_raw ?c) = Some ''hello''"
    by (simp add: demo_eval)
  have l: "lines_of_file demo_env (files ?w) (metadata_ignore_secret ?c) = [''05ab'']"
    by (simp add: lines_of_file_def demo_eval)
  from applyIgnoreRules_secrets [OF h1 h2] h3 have
    "applyIgnoreRules demo_env ?c ?w =
       Returned () (?c,
         if hex_digest (SHA512 demo_env ''hello'')
              \<in> set (lines_of_file demo_env (files ?w) (metadata_ignore_secret ?c))
         then ?w\<lparr>files := writeToFile (data_raw ?c) [] (files ?w)\<rparr> else ?w)"
    by blast
  then have "applyIgnoreRules demo_env ?c ?w =
       Returned () (?c, ?w\<lparr>files := writeToFile (data_raw ?c) [] (files ?w)\<rparr>)"
    unfolding l demo_digest_hello by simp
  moreover have "?w\<lparr>files := writeToFile (data_raw ?c) [] (files ?w)\<rparr>
      = demo_world (demo_raw_files [] @ demo_secret_file ''05ab'')"
    by (simp add: demo_eval)
  ultimately show ?thesis using h1 h2 h3 by (simp add: demo_world_def)
qed

text \<open>
  C6. With a non-empty \<open>ignore_regex\<close> file whose lines are all regular expressions,
  and a current entry that holds raw data, the block of the regexes writes back the
  raw content with the matches of each pattern replaced by nothing, one pattern
  after the other in the order of the file (a left fold). The block of the secrets
  then runs on that content: unless an \<open>ignore_secret\<close> file is held too, this is
  the state \<open>applyIgnoreRules\<close> returns.
\<close>

theorem applyIgnoreRules_regexes:
  assumes "holdsIgnoreRegexes c w"
    and "list_all (regex_valid e) (lines_of_file e (files w) (metadata_ignore c))"
    and "fileContents (files w) (data_raw c) = Some content" and "content \<noteq> []"
    and "scrubbed = foldl (\<lambda>content regex. regex_replace e content regex) content
                      (lines_of_file e (files w) (metadata_ignore c))"
    and "w1 = w\<lparr>files := writeToFile (data_raw c) scrubbed (files w)\<rparr>"
  shows "ignore_regex_pass e c w = Returned () (c, w1)
     \<and> fileContents (files w1) (data_raw c) = Some scrubbed
     \<and> applyIgnoreRules e c w = ignore_secret_pass e c w1
     \<and> (\<not> holdsIgnoreSecrets c w1 \<longrightarrow> applyIgnoreRules e c w = Returned () (c, w1))"
proof -
  have r: "ignore_regex_pass e c w = Returned () (c, w1)"
    using assms
    by (simp add: ignore_regex_pass_def ignoreRegexes_def holdsRaw_content scrub_content_def)
  have f: "fileContents (files w1) (data_raw c) = Some scrubbed"
    unfolding assms(6) by (simp add: fileContents_writeToFile)
  have a: "applyIgnoreRules e c w = ignore_secret_pass e c w1"
    using r by (simp add: applyIgnoreRules_def)
  have "\<not> holdsIgnoreSecrets c w1 \<longrightarrow> applyIgnoreRules e c w = Returned () (c, w1)"
    unfolding a by (simp add: ignore_secret_pass_def)
  with r f a show ?thesis by blast
qed

theorem applyIgnoreRules_regexes_witness:
  "holdsIgnoreRegexes (demo_clipboard [0])
       (demo_world (demo_raw_files ''hello world'' @ demo_regex_file ''lo''))
   \<and> list_all (regex_valid demo_env)
       (lines_of_file demo_env (demo_raw_files ''hello world'' @ demo_regex_file ''lo'')
          (metadata_ignore (demo_clipboard [0])))
   \<and> fileContents (demo_raw_files ''hello world'' @ demo_regex_file ''lo'')
         (data_raw (demo_clipboard [0])) = Some ''hello world''
   \<and> applyIgnoreRules demo_env (demo_clipboard [0])
         (demo_world (demo_raw_files ''hello world'' @ demo_regex_file ''lo''))
     = Returned () (demo_clipboard [0],
         demo_world (demo_raw_files ''he wrd'' @ demo_regex_file ''lo''))"
proof -
  let ?c = "demo_clipboard [0]"
  let ?w = "demo_world (demo_raw_files ''hello world'' @ demo_regex_file ''lo'')"
  let ?w1 = "demo_world (demo_raw_files ''he wrd'' @ demo_regex_file ''lo'')"
  have h1: "holdsIgnoreRegexes ?c ?w"
    by (simp add: holdsIgnoreRegexes_def demo_eval)
  have l: "lines_of_file demo_env (files ?w) (metadata_ignore ?c) = [''lo'']"
    by (simp add: lines_of_file_def demo_eval)
  have h2: "list_all (regex_valid demo_env) (lines_of_file demo_env (files ?w) (metadata_ignore ?c))"
    unfolding l by (simp add: demo_env_def)
  have h3: "fileContents (files ?w) (data_raw ?c) = Some ''hello world''"
    by (simp add: demo_eval)
  have h4: "''hello world'' \<noteq> []" by simp
  have h5: "''he wrd'' = foldl (\<lambda>content regex. regex_replace demo_env content regex)
      ''hello world'' (lines_of_file demo_env (files ?w) (metadata_ignore ?c))"
    unfolding l by (simp add: demo_env_def)
  have h6: "?w1 = ?w\<lparr>files := writeToFile (data_raw ?c) ''he wrd'' (files ?w)\<rparr>"
    by (simp add: demo_eval)
  have n: "\<not> holdsIgnoreSecrets ?c ?w1"
    by (simp add: holdsIgnoreSecrets_def demo_eval)
  from applyIgnoreRules_regexes [OF h1 h2 h3 h4 h5 h6, of] n
  have "applyIgnoreRules demo_env ?c ?w = Returned () (?c, ?w1)" by blast
  with h1 h2 h3 show ?thesis by (simp add: demo_world_def)
qed

subsection \<open>Reading the budgets\<close>

lemma lastTwoChars_last:
  assumes "setting \<noteq> []"
  shows "length (lastTwoChars e setting) = 2"
    and "lastTwoChars e setting ! 1 = tolower (last setting)"
proof -
  consider (one) c where "setting = [c]" | (more) front a z where "setting = front @ [a, z]"
  proof -
    from assms obtain ys z where 1: "setting = ys @ [z]"
      by (cases setting rule: rev_cases) auto
    show ?thesis
    proof (cases ys rule: rev_cases)
      case Nil
      with 1 one show ?thesis by simp
    next
      case (snoc front a)
      with 1 more show ?thesis by simp
    qed
  qed
  then have "length (lastTwoChars e setting) = 2
      \<and> lastTwoChars e setting ! 1 = tolower (last setting)"
    by cases (simp_all add: lastTwoChars_def)
  then show "length (lastTwoChars e setting) = 2"
    and "lastTwoChars e setting ! 1 = tolower (last setting)"
    by simp_all
qed

lemma length_lastTwoChars: "length (lastTwoChars e setting) = 2"
  by (cases "setting = []") (simp_all add: lastTwoChars_last(1), simp add: lastTwoChars_def)

lemma parse_setting_plain:
  assumes "setting \<noteq> []" and "tolower (last setting) \<notin> set ''bymwdhs''"
  shows "parse_setting e b setting = assign_entries b (stoul setting)"
proof -
  obtain x y where l: "lastTwoChars e setting = [x, y]"
    using lastTwoChars_last(1) [OF assms(1), of e]
    by (cases "lastTwoChars e setting" rule: rev_cases; simp)
       (metis length_0_conv length_Cons Suc_length_conv One_nat_def Suc_1 Suc_inject)
  with lastTwoChars_last(2) [OF assms(1), of e] have y: "y = tolower (last setting)" by simp
  show ?thesis
    using assms(2) unfolding parse_setting_def l Let_def y [symmetric] by simp
qed

lemma isdigit_not_space_sign:
  "isdigit c \<Longrightarrow> \<not> isspace c \<and> c \<noteq> CHR ''-'' \<and> c \<noteq> CHR ''+''"
  by (auto simp: isdigit_def isspace_def)

lemma stoul_digits:
  assumes "ds \<noteq> []" and "list_all isdigit ds" and "digits_val ds \<le> ULONG_MAX"
  shows "stoul ds = Inr (digits_val ds)"
proof -
  obtain d rest where ds: "ds = d # rest" using assms(1) by (cases ds) auto
  with assms(2) have d: "isdigit d" by simp
  have t: "takeWhile isdigit ds = ds"
    using assms(2) by (simp add: takeWhile_eq_all_conv list_all_iff)
  have w: "dropWhile isspace ds = ds"
    using isdigit_not_space_sign [OF d] by (simp add: ds)
  have h: "hd ds \<noteq> CHR ''-''" "hd ds \<noteq> CHR ''+''"
    using isdigit_not_space_sign [OF d] by (simp_all add: ds)
  have "scan_integer ds = Some (False, digits_val ds)"
    unfolding scan_integer_def w Let_def by (simp add: h t assms(1))
  with assms(3) show ?thesis by (simp add: stoul_def)
qed

lemma parse_settings_snoc:
  "parse_settings e b (settings @ [setting]) = parse_setting e (parse_settings e b settings) setting"
  by (induction settings arbitrary: b) simp_all

lemma parse_setting_all_fail:
  assumes "stoul setting = Inl x" and "\<forall>k. isl (stold_scaled e setting k)"
  shows "parse_setting e b setting = b"
proof -
  have s: "assign_bytes b (stold_scaled e setting k) = b"
    "assign_seconds b (stold_scaled e setting k) = b" for k
    using assms(2) [rule_format, of k]
    by (cases "stold_scaled e setting k"; simp add: assign_bytes_def assign_seconds_def)+
  have t: "assign_entries b (stoul setting) = b" "assign_seconds b (stoul setting) = b"
    "assign_bytes b (stoull setting) = b"
    by (simp_all add: stoull_def assms(1) assign_bytes_def assign_seconds_def assign_entries_def)
  show ?thesis
    unfolding parse_setting_def Let_def by (simp add: s t)
qed

lemma upper_not_digit: "list_all (\<lambda>u. \<not> isdigit u) ''ABCDEFGHIJKLMNOPQRSTUVWXYZ''"
  by (simp add: isdigit_def)

lemma unit_not_digit: "list_all (\<lambda>u. \<not> isdigit u) ''bymwdhs''"
  by (simp add: isdigit_def)

lemma isdigit_tolower:
  assumes "isdigit c" shows "tolower c = c"
proof -
  have "c \<notin> set ''ABCDEFGHIJKLMNOPQRSTUVWXYZ''"
    using upper_not_digit assms unfolding list_all_iff by blast
  then have "map_of (zip ''ABCDEFGHIJKLMNOPQRSTUVWXYZ'' ''abcdefghijklmnopqrstuvwxyz'') c = None"
    by (simp add: map_of_eq_None_iff)
  then show ?thesis by (simp only: tolower_def option.case)
qed

lemma parse_setting_branch:
  "\<exists>r. (r = stoul setting \<or> (\<exists>k. r = stold_scaled e setting k))
      \<and> (parse_setting e b setting = assign_bytes b r
         \<or> parse_setting e b setting = assign_seconds b r
         \<or> parse_setting e b setting = assign_entries b r)"
proof -
  define P where "P x \<longleftrightarrow> (\<exists>r. (r = stoul setting \<or> (\<exists>k. r = stold_scaled e setting k))
      \<and> (x = assign_bytes b r \<or> x = assign_seconds b r \<or> x = assign_entries b r))" for x
  have A: "P (assign_bytes b (stold_scaled e setting k))"
    "P (assign_seconds b (stold_scaled e setting k))"
    "P (assign_bytes b (stoull setting))"
    "P (assign_seconds b (stoul setting))"
    "P (assign_entries b (stoul setting))" for k
    unfolding P_def stoull_def by blast+
  have I: "P x \<Longrightarrow> P y \<Longrightarrow> P (if c then x else y)" for c x y by simp
  have "P (parse_setting e b setting)"
    unfolding parse_setting_def Let_def by (intro I A)
  then show ?thesis unfolding P_def .
qed

lemma parse_setting_one_parser:
  "\<exists>r. (r = stoul setting \<or> (\<exists>k. r = stold_scaled e setting k))
      \<and> (case r of
           Inl x \<Rightarrow> parse_setting e b setting = b
         | Inr n \<Rightarrow> parse_setting e b setting = b\<lparr>maximumBytes := n\<rparr>
                  \<or> parse_setting e b setting = b\<lparr>maximumSeconds := n\<rparr>
                  \<or> parse_setting e b setting = b\<lparr>maximumEntries := n\<rparr>)"
proof -
  from parse_setting_branch [of setting e b] obtain r where
    r: "r = stoul setting \<or> (\<exists>k. r = stold_scaled e setting k)"
    and p: "parse_setting e b setting = assign_bytes b r
         \<or> parse_setting e b setting = assign_seconds b r
         \<or> parse_setting e b setting = assign_entries b r"
    by blast
  have "case r of
           Inl x \<Rightarrow> parse_setting e b setting = b
         | Inr n \<Rightarrow> parse_setting e b setting = b\<lparr>maximumBytes := n\<rparr>
                  \<or> parse_setting e b setting = b\<lparr>maximumSeconds := n\<rparr>
                  \<or> parse_setting e b setting = b\<lparr>maximumEntries := n\<rparr>"
    using p by (cases r) (auto simp: assign_bytes_def assign_seconds_def assign_entries_def)
  with r show ?thesis by blast
qed

lemma isdigit_plain: 
  assumes "isdigit c" shows "tolower c \<notin> set ''bymwdhs''"
proof -
  have "c \<notin> set ''bymwdhs''"
    using unit_not_digit assms unfolding list_all_iff by blast
  then show ?thesis unfolding isdigit_tolower [OF assms] .
qed

lemma digits_plain:
  assumes "setting \<noteq> []" and "list_all isdigit setting"
  shows "tolower (last setting) \<notin> set ''bymwdhs''"
proof -
  have "last setting \<in> set setting" using assms(1) by simp
  with assms(2) have "isdigit (last setting)" by (simp add: list_all_iff)
  then show ?thesis by (rule isdigit_plain)
qed

text \<open>
  C8. A token whose last character is none of the unit letters \<open>b\<close>, \<open>y\<close>, \<open>m\<close>, \<open>w\<close>,
  \<open>d\<close>, \<open>h\<close>, \<open>s\<close> (in either case) goes to \<open>std::stoul\<close>: what it reads becomes
  \<open>maximumEntries\<close>, the other budgets stay, and when it throws all budgets stay. A
  token made of digits whose value fits \<open>unsigned long\<close>, a single digit such as \<open>5\<close>
  included, sets \<open>maximumEntries\<close> to that value, whatever the bytes in front of the
  buffer are. The tokens are handled one after the other, each from the budgets the
  earlier ones left, so a later token overrides an earlier one of the same budget.
  Every token is read by one number parser, \<open>std::stoul\<close> (which \<open>std::stoull\<close> is here)
  or \<open>std::stold\<close> with the scale of its unit: when that parser throws the budgets stay
  as they are, otherwise one budget is set to the value read and the other two stay.
\<close>

theorem parse_setting_plain_integer:
  "(setting \<noteq> [] \<and> tolower (last setting) \<notin> set ''bymwdhs'' \<longrightarrow>
      parse_setting e b setting
        = (case stoul setting of Inl x \<Rightarrow> b | Inr n \<Rightarrow> b\<lparr>maximumEntries := n\<rparr>))
   \<and> (setting \<noteq> [] \<and> list_all isdigit setting \<and> digits_val setting \<le> ULONG_MAX \<longrightarrow>
      parse_setting e b setting = b\<lparr>maximumEntries := digits_val setting\<rparr>)
   \<and> parse_settings e b (settings @ [setting])
        = parse_setting e (parse_settings e b settings) setting
   \<and> (isl (stoul setting) \<and> (\<forall>k. isl (stold_scaled e setting k)) \<longrightarrow>
        parse_setting e b setting = b)
   \<and> (\<exists>r. (r = stoul setting \<or> (\<exists>k. r = stold_scaled e setting k))
        \<and> (case r of
             Inl x \<Rightarrow> parse_setting e b setting = b
           | Inr n \<Rightarrow> parse_setting e b setting = b\<lparr>maximumBytes := n\<rparr>
                    \<or> parse_setting e b setting = b\<lparr>maximumSeconds := n\<rparr>
                    \<or> parse_setting e b setting = b\<lparr>maximumEntries := n\<rparr>))"
proof -
  have plain: "parse_setting e b setting
        = (case stoul setting of Inl x \<Rightarrow> b | Inr n \<Rightarrow> b\<lparr>maximumEntries := n\<rparr>)"
    if "setting \<noteq> []" "tolower (last setting) \<notin> set ''bymwdhs''"
    using parse_setting_plain [OF that, of e b] by (simp add: assign_entries_def)
  have digits: "parse_setting e b setting = b\<lparr>maximumEntries := digits_val setting\<rparr>"
    if "setting \<noteq> []" "list_all isdigit setting" "digits_val setting \<le> ULONG_MAX"
    using plain [OF that(1) digits_plain [OF that(1,2)]] stoul_digits [OF that] by simp
  have fail: "parse_setting e b setting = b"
    if "isl (stoul setting)" "\<forall>k. isl (stold_scaled e setting k)"
  proof -
    from that(1) obtain x where "stoul setting = Inl x" by (cases "stoul setting") auto
    then show ?thesis using that(2) by (rule parse_setting_all_fail)
  qed
  from plain digits fail parse_settings_snoc [of e b settings setting]
    parse_setting_one_parser [of setting e b]
  show ?thesis by blast
qed

theorem parse_setting_plain_integer_witness:
  "list_all isdigit ''5'' \<and> digits_val ''5'' \<le> ULONG_MAX
   \<and> parse_setting demo_env \<lparr>maximumBytes = 7, maximumSeconds = 8, maximumEntries = 9\<rparr> ''5''
       = \<lparr>maximumBytes = 7, maximumSeconds = 8, maximumEntries = 5\<rparr>
   \<and> tolower (last ''12x'') \<notin> set ''bymwdhs'' \<and> stoul ''12x'' = Inr 12
   \<and> parse_setting demo_env \<lparr>maximumBytes = 7, maximumSeconds = 8, maximumEntries = 9\<rparr> ''12x''
       = \<lparr>maximumBytes = 7, maximumSeconds = 8, maximumEntries = 12\<rparr>
   \<and> isl (stoul ''zz'') \<and> (\<forall>k. isl (stold_scaled demo_env ''zz'' k))
   \<and> parse_setting demo_env \<lparr>maximumBytes = 7, maximumSeconds = 8, maximumEntries = 9\<rparr> ''zz''
       = \<lparr>maximumBytes = 7, maximumSeconds = 8, maximumEntries = 9\<rparr>"
proof -
  let ?b = "\<lparr>maximumBytes = 7, maximumSeconds = 8, maximumEntries = 9\<rparr>"
  have d: "list_all isdigit ''5''" by (simp add: isdigit_def)
  have v: "digits_val ''5'' = 5" by (simp add: digits_val_def digit_val_def)
  have u: "digits_val ''5'' \<le> ULONG_MAX" unfolding v by (simp add: ULONG_MAX_def)
  have p: "tolower (last ''12x'') \<notin> set ''bymwdhs''" by (simp add: tolower_def)
  have s: "stoul ''12x'' = Inr 12"
    by (simp add: stoul_def scan_integer_def isspace_def isdigit_def digits_val_def digit_val_def
        ULONG_MAX_def)
  have z: "stoul ''zz'' = Inl Invalid_argument"
    by (simp add: stoul_def scan_integer_def isspace_def isdigit_def)
  then have f: "isl (stoul ''zz'')" "\<forall>k. isl (stold_scaled demo_env ''zz'' k)"
    by (simp_all add: demo_env_def)
  have "parse_setting demo_env ?b ''5'' = ?b\<lparr>maximumEntries := digits_val ''5''\<rparr>"
    using parse_setting_plain_integer [of "''5''" demo_env ?b "[]"] d u by blast
  moreover have "parse_setting demo_env ?b ''12x''
      = (case stoul ''12x'' of Inl x \<Rightarrow> ?b | Inr n \<Rightarrow> ?b\<lparr>maximumEntries := n\<rparr>)"
    using parse_setting_plain_integer [of "''12x''" demo_env ?b "[]"] p by blast
  moreover have "parse_setting demo_env ?b ''zz'' = ?b"
    using parse_setting_plain_integer [of "''zz''" demo_env ?b "[]"] f by blast
  ultimately show ?thesis using d u p s f by (simp add: v)
qed

end
